theory Spec2Isabelle
  imports Main "HOL-Library.Sublist"
begin

section \<open>Python strings\<close>

text \<open>
  A Python \<open>str\<close> is a sequence of Unicode code points; it is modelled as a list of
  natural numbers, one per code point, so that \<open>len\<close>, slicing and indexing count what
  Python counts. \<open>asc\<close> turns an ASCII literal of the source into such a list.
\<close>

type_synonym pystr = "nat list"

definition asc :: "string \<Rightarrow> pystr" where
  "asc s = map of_char s"

datatype pyerr = TypeError | AttributeError | KeyError | IndexError | ValueError | OSError

text \<open>\<open>sub in s\<close> on strings.\<close>

fun py_contains :: "pystr \<Rightarrow> pystr \<Rightarrow> bool" where
  "py_contains sub [] = (sub = [])"
| "py_contains sub (c # cs) = (prefix sub (c # cs) \<or> py_contains sub cs)"

text \<open>\<open>s.find(sub)\<close>: the lowest index of an occurrence, or \<open>-1\<close>.\<close>

fun find_from :: "pystr \<Rightarrow> pystr \<Rightarrow> nat \<Rightarrow> int" where
  "find_from sub [] i = (if sub = [] then int i else - 1)"
| "find_from sub (c # cs) i =
     (if prefix sub (c # cs) then int i else find_from sub cs (Suc i))"

definition py_find :: "pystr \<Rightarrow> pystr \<Rightarrow> int" where
  "py_find s sub = find_from sub s 0"

text \<open>\<open>s.rfind(sub)\<close>: the highest index of an occurrence, or \<open>-1\<close>.\<close>

fun rfind_from :: "pystr \<Rightarrow> pystr \<Rightarrow> nat \<Rightarrow> int" where
  "rfind_from sub [] i = (if sub = [] then int i else - 1)"
| "rfind_from sub (c # cs) i =
     (let r = rfind_from sub cs (Suc i)
      in if r \<noteq> - 1 then r else if prefix sub (c # cs) then int i else - 1)"

definition py_rfind :: "pystr \<Rightarrow> pystr \<Rightarrow> int" where
  "py_rfind s sub = rfind_from sub s 0"

text \<open>\<open>s[start:stop]\<close> with Python's treatment of negative and out-of-range bounds.\<close>

definition py_slice :: "'a list \<Rightarrow> int \<Rightarrow> int \<Rightarrow> 'a list" where
  "py_slice s start stop =
     (let n = int (length s);
          a = (if start < 0 then max 0 (start + n) else min start n);
          b = (if stop < 0 then max 0 (stop + n) else min stop n)
      in take (nat (b - a)) (drop (nat a) s))"

text \<open>The code points for which \<open>str.isspace\<close> holds; \<open>s.strip()\<close> removes them at both ends.\<close>

definition is_space :: "nat \<Rightarrow> bool" where
  "is_space c \<longleftrightarrow>
     (9 \<le> c \<and> c \<le> 13) \<or> (28 \<le> c \<and> c \<le> 32) \<or> c = 133 \<or> c = 160 \<or> c = 5760 \<or>
     (8192 \<le> c \<and> c \<le> 8202) \<or> c = 8232 \<or> c = 8233 \<or> c = 8239 \<or> c = 8287 \<or> c = 12288"

definition strip_chars :: "(nat \<Rightarrow> bool) \<Rightarrow> pystr \<Rightarrow> pystr" where
  "strip_chars P s = rev (dropWhile P (rev (dropWhile P s)))"

definition py_strip :: "pystr \<Rightarrow> pystr" where
  "py_strip s = strip_chars is_space s"

section \<open>JSON values and \<open>json.loads\<close>\<close>

text \<open>
  The value \<open>json.loads\<close> returns: \<open>None\<close>, a bool, an int, a float (kept as the text of
  its literal, floating point arithmetic is not needed), a str, a list, or a dict. A dict
  is an association list with distinct keys in insertion order.
\<close>

datatype json =
    JNull
  | JBool bool
  | JInt int
  | JFloat pystr
  | JStr pystr
  | JArr "json list"
  | JObj "(pystr \<times> json) list"

fun dict_set :: "pystr \<Rightarrow> json \<Rightarrow> (pystr \<times> json) list \<Rightarrow> (pystr \<times> json) list" where
  "dict_set k v [] = [(k, v)]"
| "dict_set k v ((k', v') # kvs) =
     (if k = k' then (k, v) # kvs else (k', v') # dict_set k v kvs)"

definition is_json_ws :: "nat \<Rightarrow> bool" where
  "is_json_ws c \<longleftrightarrow> c = 32 \<or> c = 9 \<or> c = 10 \<or> c = 13"

definition skip_ws :: "pystr \<Rightarrow> pystr" where
  "skip_ws s = dropWhile is_json_ws s"

definition is_digit :: "nat \<Rightarrow> bool" where
  "is_digit c \<longleftrightarrow> 48 \<le> c \<and> c \<le> 57"

definition hex_val :: "nat \<Rightarrow> nat option" where
  "hex_val c =
     (if 48 \<le> c \<and> c \<le> 57 then Some (c - 48)
      else if 97 \<le> c \<and> c \<le> 102 then Some (c - 87)
      else if 65 \<le> c \<and> c \<le> 70 then Some (c - 55)
      else None)"

definition hex4 :: "nat \<Rightarrow> nat \<Rightarrow> nat \<Rightarrow> nat \<Rightarrow> nat option" where
  "hex4 a b c d =
     (case (hex_val a, hex_val b, hex_val c, hex_val d) of
        (Some w, Some x, Some y, Some z) \<Rightarrow> Some (((w * 16 + x) * 16 + y) * 16 + z)
      | _ \<Rightarrow> None)"

definition unescape :: "nat \<Rightarrow> nat option" where
  "unescape e =
     (if e = 34 then Some 34 else if e = 92 then Some 92 else if e = 47 then Some 47
      else if e = 98 then Some 8 else if e = 102 then Some 12 else if e = 110 then Some 10
      else if e = 114 then Some 13 else if e = 116 then Some 9 else None)"

definition cons_str :: "nat \<Rightarrow> (pystr \<times> pystr) option \<Rightarrow> (pystr \<times> pystr) option" where
  "cons_str c r = map_option (\<lambda>(t, rest). (c # t, rest)) r"

text \<open>
  The body of a string literal, after the opening quote, up to the closing quote
  (strict mode: a control character is an error; a high surrogate escape directly
  followed by a low surrogate escape is one code point).
\<close>

fun scan_string :: "pystr \<Rightarrow> (pystr \<times> pystr) option" where
  "scan_string [] = None"
| "scan_string (c # cs) =
     (if c = 34 then Some ([], cs)
      else if c = 92 then
        (case cs of
           [] \<Rightarrow> None
         | e # r \<Rightarrow>
             if e = 117 then
               (case r of
                  h1 # h2 # h3 # h4 # r' \<Rightarrow>
                    (case hex4 h1 h2 h3 h4 of
                       None \<Rightarrow> None
                     | Some u \<Rightarrow>
                         if 55296 \<le> u \<and> u \<le> 56319 then
                           (case r' of
                              b # l # g1 # g2 # g3 # g4 # r'' \<Rightarrow>
                                if b = 92 \<and> l = 117 then
                                  (case hex4 g1 g2 g3 g4 of
                                     None \<Rightarrow> None
                                   | Some u2 \<Rightarrow>
                                       if 56320 \<le> u2 \<and> u2 \<le> 57343
                                       then cons_str (65536 + (u - 55296) * 1024 + (u2 - 56320))
                                              (scan_string r'')
                                       else cons_str u (scan_string r'))
                                else cons_str u (scan_string r')
                            | _ \<Rightarrow> cons_str u (scan_string r'))
                         else cons_str u (scan_string r'))
                | _ \<Rightarrow> None)
             else
               (case unescape e of
                  None \<Rightarrow> None
                | Some ch \<Rightarrow> cons_str ch (scan_string r)))
      else if c < 32 then None
      else cons_str c (scan_string cs))"

definition digits_val :: "pystr \<Rightarrow> int" where
  "digits_val ds = foldl (\<lambda>a d. a * 10 + int (d - 48)) 0 ds"

text \<open>
  A number literal \<open>-?(0|[1-9][0-9]*)(\.[0-9]+)?([eE][-+]?[0-9]+)?\<close>, matched greedily:
  an int when neither fraction nor exponent is present, a float otherwise.
\<close>

definition scan_int_part :: "pystr \<Rightarrow> (pystr \<times> pystr) option" where
  "scan_int_part s =
     (case s of
        [] \<Rightarrow> None
      | d # r \<Rightarrow>
          if d = 48 then Some ([d], r)
          else if 49 \<le> d \<and> d \<le> 57 then Some (d # takeWhile is_digit r, dropWhile is_digit r)
          else None)"

definition scan_frac :: "pystr \<Rightarrow> pystr \<times> pystr" where
  "scan_frac s =
     (case s of
        p # d # r \<Rightarrow>
          if p = 46 \<and> is_digit d
          then (p # d # takeWhile is_digit r, dropWhile is_digit r)
          else ([], s)
      | _ \<Rightarrow> ([], s))"

definition scan_exp :: "pystr \<Rightarrow> pystr \<times> pystr" where
  "scan_exp s =
     (case s of
        e # r \<Rightarrow>
          if e = 101 \<or> e = 69 then
            (case r of
               g # r' \<Rightarrow>
                 if is_digit g then (e # g # takeWhile is_digit r', dropWhile is_digit r')
                 else if g = 43 \<or> g = 45 then
                   (case r' of
                      d # r'' \<Rightarrow>
                        if is_digit d
                        then (e # g # d # takeWhile is_digit r'', dropWhile is_digit r'')
                        else ([], s)
                    | [] \<Rightarrow> ([], s))
                 else ([], s)
             | [] \<Rightarrow> ([], s))
          else ([], s)
      | [] \<Rightarrow> ([], s))"

definition parse_number :: "pystr \<Rightarrow> (json \<times> pystr) option" where
  "parse_number s =
     (let (neg, s1) = (case s of [] \<Rightarrow> (False, s) | c # r \<Rightarrow> if c = 45 then (True, r) else (False, s))
      in case scan_int_part s1 of
           None \<Rightarrow> None
         | Some (ip, r1) \<Rightarrow>
             (let (fp, r2) = scan_frac r1; (ep, r3) = scan_exp r2
              in if fp = [] \<and> ep = []
                 then Some (JInt (if neg then - digits_val ip else digits_val ip), r1)
                 else Some (JFloat ((if neg then [45] else []) @ ip @ fp @ ep), r3)))"

text \<open>
  The scanner. Every recursive call is made on a strictly shorter text; the first
  argument bounds the depth of the recursion and is set from the length of the input.
\<close>

fun parse_value :: "nat \<Rightarrow> pystr \<Rightarrow> (json \<times> pystr) option"
  and parse_array :: "nat \<Rightarrow> json list \<Rightarrow> pystr \<Rightarrow> (json \<times> pystr) option"
  and parse_object :: "nat \<Rightarrow> (pystr \<times> json) list \<Rightarrow> pystr \<Rightarrow> (json \<times> pystr) option"
where
  "parse_value 0 s = None"
| "parse_value (Suc n) s =
     (case s of
        [] \<Rightarrow> None
      | c # cs \<Rightarrow>
          if c = 34 then map_option (\<lambda>(t, r). (JStr t, r)) (scan_string cs)
          else if c = 123 then
            (case skip_ws cs of
               [] \<Rightarrow> None
             | d # r \<Rightarrow> if d = 125 then Some (JObj [], r) else parse_object n [] (d # r))
          else if c = 91 then
            (case skip_ws cs of
               [] \<Rightarrow> None
             | d # r \<Rightarrow> if d = 93 then Some (JArr [], r) else parse_array n [] (d # r))
          else if prefix (asc ''null'') s then Some (JNull, drop 4 s)
          else if prefix (asc ''true'') s then Some (JBool True, drop 4 s)
          else if prefix (asc ''false'') s then Some (JBool False, drop 5 s)
          else if prefix (asc ''NaN'') s then Some (JFloat (asc ''NaN''), drop 3 s)
          else if prefix (asc ''Infinity'') s then Some (JFloat (asc ''Infinity''), drop 8 s)
          else if prefix (asc ''-Infinity'') s then Some (JFloat (asc ''-Infinity''), drop 9 s)
          else parse_number s)"
| "parse_array 0 acc s = None"
| "parse_array (Suc n) acc s =
     (case parse_value n s of
        None \<Rightarrow> None
      | Some (v, r) \<Rightarrow>
          (case skip_ws r of
             [] \<Rightarrow> None
           | d # r' \<Rightarrow>
               if d = 44 then parse_array n (acc @ [v]) (skip_ws r')
               else if d = 93 then Some (JArr (acc @ [v]), r')
               else None))"
| "parse_object 0 acc s = None"
| "parse_object (Suc n) acc s =
     (case s of
        [] \<Rightarrow> None
      | q # cs \<Rightarrow>
          if q \<noteq> 34 then None
          else
            (case scan_string cs of
               None \<Rightarrow> None
             | Some (k, r) \<Rightarrow>
                 (case skip_ws r of
                    [] \<Rightarrow> None
                  | col # r1 \<Rightarrow>
                      if col \<noteq> 58 then None
                      else
                        (case parse_value n (skip_ws r1) of
                           None \<Rightarrow> None
                         | Some (v, r2) \<Rightarrow>
                             (case skip_ws r2 of
                                [] \<Rightarrow> None
                              | d # r3 \<Rightarrow>
                                  if d = 44 then parse_object n (dict_set k v acc) (skip_ws r3)
                                  else if d = 125 then Some (JObj (dict_set k v acc), r3)
                                  else None)))))"

text \<open>
  \<open>json.loads\<close>: \<open>None\<close> stands for \<open>JSONDecodeError\<close> (a leading byte order mark,
  a syntax error, or data after the document). The limits of the interpreter (depth of
  recursion, number of digits of an int literal) are not modelled.
\<close>

definition json_loads :: "pystr \<Rightarrow> json option" where
  "json_loads s =
     (if prefix [65279] s then None
      else
        (case parse_value (Suc (Suc (length s + length s))) (skip_ws s) of
           None \<Rightarrow> None
         | Some (v, r) \<Rightarrow> if skip_ws r = [] then Some v else None))"

section \<open>Response parsing and validation (\<open>ai_generator.py\<close>)\<close>

text \<open>
  \<open>key in x\<close> for a str key: membership among the keys of a dict, among the elements of
  a list, substring test on a str, \<open>TypeError\<close> on anything else.
\<close>

fun py_in :: "pystr \<Rightarrow> json \<Rightarrow> pyerr + bool" where
  "py_in k (JObj kvs) = Inr (k \<in> set (map fst kvs))"
| "py_in k (JArr xs) = Inr (JStr k \<in> set xs)"
| "py_in k (JStr s) = Inr (py_contains k s)"
| "py_in k JNull = Inl TypeError"
| "py_in k (JBool b) = Inl TypeError"
| "py_in k (JInt i) = Inl TypeError"
| "py_in k (JFloat f) = Inl TypeError"

text \<open>\<open>x.get(key, default)\<close>: only a dict has the method.\<close>

fun py_get :: "json \<Rightarrow> pystr \<Rightarrow> json \<Rightarrow> pyerr + json" where
  "py_get (JObj kvs) k d = Inr (case map_of kvs k of Some v \<Rightarrow> v | None \<Rightarrow> d)"
| "py_get JNull k d = Inl AttributeError"
| "py_get (JBool b) k d = Inl AttributeError"
| "py_get (JInt i) k d = Inl AttributeError"
| "py_get (JFloat f) k d = Inl AttributeError"
| "py_get (JStr s) k d = Inl AttributeError"
| "py_get (JArr xs) k d = Inl AttributeError"

fun is_dict :: "json \<Rightarrow> bool" where
  "is_dict (JObj kvs) = True"
| "is_dict _ = False"

fun is_list :: "json \<Rightarrow> bool" where
  "is_list (JArr xs) = True"
| "is_list _ = False"

text \<open>\<open>all(key in data for key in keys)\<close>, evaluated left to right.\<close>

fun all_in :: "pystr list \<Rightarrow> json \<Rightarrow> pyerr + bool" where
  "all_in [] d = Inr True"
| "all_in (k # ks) d =
     (case py_in k d of
        Inl e \<Rightarrow> Inl e
      | Inr b \<Rightarrow> if b then all_in ks d else Inr False)"

definition required_keys :: "pystr list" where
  "required_keys = [asc ''skill_md'', asc ''references'', asc ''templates'']"

definition validate_skill_data :: "json \<Rightarrow> pyerr + bool" where
  "validate_skill_data data =
     (case all_in required_keys data of
        Inl e \<Rightarrow> Inl e
      | Inr ok \<Rightarrow>
          if \<not> ok then Inr False
          else
            (case py_get data (asc ''skill_md'') (JObj []) of
               Inl e \<Rightarrow> Inl e
             | Inr skill_md \<Rightarrow>
                 if \<not> is_dict skill_md then Inr False
                 else
                   (case py_in (asc ''frontmatter'') skill_md of
                      Inl e \<Rightarrow> Inl e
                    | Inr has_fm \<Rightarrow>
                        if \<not> has_fm then Inr False
                        else
                          (case py_in (asc ''content'') skill_md of
                             Inl e \<Rightarrow> Inl e
                           | Inr has_content \<Rightarrow>
                               if \<not> has_content then Inr False
                               else
                                 (case py_get skill_md (asc ''frontmatter'') (JObj []) of
                                    Inl e \<Rightarrow> Inl e
                                  | Inr frontmatter \<Rightarrow>
                                      (case py_in (asc ''name'') frontmatter of
                                         Inl e \<Rightarrow> Inl e
                                       | Inr has_name \<Rightarrow>
                                           if \<not> has_name then Inr False
                                           else
                                             (case py_in (asc ''description'') frontmatter of
                                                Inl e \<Rightarrow> Inl e
                                              | Inr has_desc \<Rightarrow>
                                                  if \<not> has_desc then Inr False
                                                  else
                                                    (case py_get data (asc ''references'') JNull of
                                                       Inl e \<Rightarrow> Inl e
                                                     | Inr refs \<Rightarrow>
                                                         if \<not> is_list refs then Inr False
                                                         else
                                                           (case py_get data (asc ''templates'') JNull of
                                                              Inl e \<Rightarrow> Inl e
                                                            | Inr tmpls \<Rightarrow>
                                                                Inr (is_list tmpls))))))))))"

text \<open>
  The candidate text of \<open>_parse_response\<close>: between the first \<open>```json\<close> and the last
  \<open>```\<close>, else between the first and the last \<open>```\<close>, else the whole text; stripped.
\<close>

definition fence :: pystr where
  "fence = asc ''```''"

definition json_fence :: pystr where
  "json_fence = asc ''```json''"

definition json_text_of :: "pystr \<Rightarrow> pystr" where
  "json_text_of response_text =
     (if py_contains json_fence response_text then
        (let start = py_find response_text json_fence + 7;
             stop = py_rfind response_text fence
         in py_strip (py_slice response_text start stop))
      else if py_contains fence response_text then
        (let start = py_find response_text fence + 3;
             stop = py_rfind response_text fence
         in py_strip (py_slice response_text start stop))
      else py_strip response_text)"

text \<open>
  \<open>_parse_response\<close>: \<open>Inr None\<close> is the \<open>None\<close> it returns, \<open>Inl e\<close> an exception
  other than \<open>JSONDecodeError\<close>, which it does not catch.
\<close>

definition parse_response :: "pystr \<Rightarrow> pyerr + json option" where
  "parse_response response_text =
     (case json_loads (json_text_of response_text) of
        None \<Rightarrow> Inr None
      | Some skill_data \<Rightarrow>
          (case validate_skill_data skill_data of
             Inl e \<Rightarrow> Inl e
           | Inr ok \<Rightarrow> if ok then Inr (Some skill_data) else Inr None))"

section \<open>Paths and code samples (\<open>repo_analyzer.py\<close>)\<close>

text \<open>\<open>sep.join(parts)\<close>.\<close>

fun join_with :: "pystr \<Rightarrow> pystr list \<Rightarrow> pystr" where
  "join_with sep [] = []"
| "join_with sep [p] = p"
| "join_with sep (p # q # ps) = p @ sep @ join_with sep (q # ps)"

text \<open>
  \<open>str\<close> of a POSIX path: an absolute path is given by its components below the root
  \<open>/\<close>, a relative path by its components (\<open>.\<close> when there is none).
\<close>

definition abs_str :: "pystr list \<Rightarrow> pystr" where
  "abs_str dirs = asc ''/'' @ join_with (asc ''/'') dirs"

definition rel_str :: "pystr list \<Rightarrow> pystr" where
  "rel_str parts = (if parts = [] then asc ''.'' else join_with (asc ''/'') parts)"

text \<open>
  \<open>s.lower()\<close>: an ASCII code point is lowered by the ASCII rule; the lowercase form of
  a code point beyond ASCII comes from the Unicode tables (and, for the Greek sigma, from
  its context), which are given by \<open>u\<close>: \<open>u s i\<close> is the lowercase form of the code
  point at index \<open>i\<close> of \<open>s\<close>.
\<close>

definition ascii_lower :: "nat \<Rightarrow> nat" where
  "ascii_lower c = (if 65 \<le> c \<and> c \<le> 90 then c + 32 else c)"

fun lower_from :: "(pystr \<Rightarrow> nat \<Rightarrow> pystr) \<Rightarrow> pystr \<Rightarrow> nat \<Rightarrow> pystr \<Rightarrow> pystr" where
  "lower_from u s i [] = []"
| "lower_from u s i (c # cs) =
     (if c < 128 then [ascii_lower c] else u s i) @ lower_from u s (Suc i) cs"

definition py_lower :: "(pystr \<Rightarrow> nat \<Rightarrow> pystr) \<Rightarrow> pystr \<Rightarrow> pystr" where
  "py_lower u s = lower_from u s 0 s"

text \<open>
  A cloned repository: the components of the clone directory below \<open>/\<close>, and the
  entries below it in the order the directory walk yields them. An entry has its path
  relative to the clone directory, the size \<open>stat\<close> reports (\<open>None\<close>: \<open>stat\<close> raises)
  and its decoded text (\<open>None\<close>: \<open>open\<close> or \<open>read\<close> raises, as for a directory).
  \<open>walk_raises\<close> tells for which patterns the walk itself raises.
\<close>

record repo_file =
  rel_parts :: "pystr list"
  st_size :: "nat option"
  file_text :: "pystr option"

record repo =
  root_dirs :: "pystr list"
  entries :: "repo_file list"
  walk_raises :: "pystr \<Rightarrow> bool"

record code_sample =
  sample_file :: pystr
  language :: pystr
  content :: pystr

definition code_extensions :: "pystr list" where
  "code_extensions =
     [asc ''.py'', asc ''.js'', asc ''.java'', asc ''.go'', asc ''.rs'', asc ''.ts'', asc ''.tsx'']"

definition max_samples :: nat where
  "max_samples = 5"

definition max_file_size :: nat where
  "max_file_size = 100 * 1024"

text \<open>\<open>repo_path.rglob("*" + ext)\<close>: the entries whose name ends with \<open>ext\<close>.\<close>

definition rglob :: "repo \<Rightarrow> pystr \<Rightarrow> repo_file list" where
  "rglob r ext =
     filter (\<lambda>f. rel_parts f \<noteq> [] \<and> suffix ext (last (rel_parts f))) (entries r)"

definition hidden :: "pystr list \<Rightarrow> bool" where
  "hidden parts \<longleftrightarrow> (\<exists>part \<in> set parts. prefix (asc ''.'') part)"

text \<open>The inner loop over the files of one extension; it stops when five samples are held.\<close>

fun scan_files ::
  "(pystr \<Rightarrow> nat \<Rightarrow> pystr) \<Rightarrow> repo \<Rightarrow> pystr \<Rightarrow> repo_file list \<Rightarrow> code_sample list \<Rightarrow> code_sample list"
where
  "scan_files u r ext [] samples = samples"
| "scan_files u r ext (f # fs) samples =
     (if py_contains (asc ''test'') (py_lower u (abs_str (root_dirs r @ rel_parts f)))
      then scan_files u r ext fs samples
      else if hidden (asc ''/'' # root_dirs r @ rel_parts f)
      then scan_files u r ext fs samples
      else
        (case st_size f of
           None \<Rightarrow> scan_files u r ext fs samples
         | Some file_size \<Rightarrow>
             if file_size > max_file_size \<or> file_size = 0
             then scan_files u r ext fs samples
             else
               (case file_text f of
                  None \<Rightarrow> scan_files u r ext fs samples
                | Some t \<Rightarrow>
                    (let samples' = samples @
                           [\<lparr> sample_file = rel_str (rel_parts f),
                              language = drop 1 ext,
                              content = py_slice (take 5000 t) 0 2000 \<rparr>]
                     in if length samples' \<ge> max_samples then samples'
                        else scan_files u r ext fs samples'))))"

text \<open>The outer loop over the extensions.\<close>

fun scan_exts ::
  "(pystr \<Rightarrow> nat \<Rightarrow> pystr) \<Rightarrow> repo \<Rightarrow> pystr list \<Rightarrow> code_sample list \<Rightarrow> code_sample list"
where
  "scan_exts u r [] samples = samples"
| "scan_exts u r (ext # exts) samples =
     (if walk_raises r ext then samples
      else
        (let samples' = scan_files u r ext (take (max_samples * 2) (rglob r ext)) samples
         in if length samples' \<ge> max_samples then samples'
            else scan_exts u r exts samples'))"

definition extract_code_samples :: "(pystr \<Rightarrow> nat \<Rightarrow> pystr) \<Rightarrow> repo \<Rightarrow> code_sample list" where
  "extract_code_samples u r = scan_exts u r code_extensions []"

text \<open>What the claim asks of one sample.\<close>

definition sample_ok :: "repo \<Rightarrow> code_sample \<Rightarrow> bool" where
  "sample_ok r s \<longleftrightarrow>
     \<not> py_contains (asc ''test'') (map ascii_lower (sample_file s)) \<and>
     length (content s) \<le> 2000 \<and>
     (\<exists>f \<in> set (entries r). \<exists>n.
        sample_file s = rel_str (rel_parts f) \<and> \<not> hidden (rel_parts f) \<and>
        st_size f = Some n \<and> 0 < n \<and> n \<le> 100 * 1024)"

definition example_repo :: repo where
  "example_repo =
     \<lparr> root_dirs = [asc ''data'', asc ''temp'', asc ''o_r''],
       entries =
         [\<lparr> rel_parts = [asc ''tests'', asc ''test_app.py''], st_size = Some 20,
            file_text = Some (asc ''assert True'') \<rparr>,
          \<lparr> rel_parts = [asc ''src'', asc ''app.py''], st_size = Some 8,
            file_text = Some (asc ''print(1)'') \<rparr>,
          \<lparr> rel_parts = [asc ''.github'', asc ''build.js''], st_size = Some 3,
            file_text = Some (asc ''x()'') \<rparr>,
          \<lparr> rel_parts = [asc ''empty.py''], st_size = Some 0, file_text = Some [] \<rparr>],
       walk_raises = (\<lambda>ext. False) \<rparr>"

section \<open>The single-repository workflow (\<open>app.py\<close>)\<close>

text \<open>
  \<open>generate_skill_workflow\<close> runs inside one \<open>try ... except Exception\<close> whose handler
  only reports the error. The collaborators are given by what each call does in one
  run: it raises, or it returns (for the calls whose result is tested, \<open>True\<close> stands
  for a result that passes the test of the workflow, \<open>False\<close> for \<open>None\<close> or failure).
  The progress and message calls of the user interface, and \<open>extract_repo_info\<close> on
  the validated URL, take no part in the control flow and are left out of the trace.
\<close>

datatype 'a outcome = Raised | Returned 'a

record run =
  create_generator_r :: "unit outcome"
  validate_github_url_r :: "bool outcome"
  fetch_repo_metadata_r :: "bool outcome"
  clone_repository_r :: "bool outcome"
  analyze_repository_r :: "unit outcome"
  generate_skill_r :: "bool outcome"
  build_skill_r :: "unit outcome"
  validate_skill_r :: "bool outcome"
  package_skill_r :: "bool outcome"
  add_skill_r :: "unit outcome"

datatype call =
    CreateGenerator | ValidateUrl | FetchMetadata | Clone | Analyze | Generate
  | Build | ValidateSkill | Package | Cleanup | AddSkill

datatype ending = EarlyReturn | Completed | ExceptHandler

text \<open>The calls made, in order, and how the function ends.\<close>

definition generate_skill_workflow :: "run \<Rightarrow> call list \<times> ending" where
  "generate_skill_workflow r =
     (case create_generator_r r of
        Raised \<Rightarrow> ([CreateGenerator], ExceptHandler)
      | Returned _ \<Rightarrow>
     (case validate_github_url_r r of
        Raised \<Rightarrow> ([CreateGenerator, ValidateUrl], ExceptHandler)
      | Returned is_valid \<Rightarrow>
          if \<not> is_valid then ([CreateGenerator, ValidateUrl], EarlyReturn)
          else
     (case fetch_repo_metadata_r r of
        Raised \<Rightarrow> ([CreateGenerator, ValidateUrl, FetchMetadata], ExceptHandler)
      | Returned repo_metadata \<Rightarrow>
          if \<not> repo_metadata then ([CreateGenerator, ValidateUrl, FetchMetadata], EarlyReturn)
          else
     (case clone_repository_r r of
        Raised \<Rightarrow> ([CreateGenerator, ValidateUrl, FetchMetadata, Clone], ExceptHandler)
      | Returned repo_path \<Rightarrow>
          if \<not> repo_path then ([CreateGenerator, ValidateUrl, FetchMetadata, Clone], EarlyReturn)
          else
     (case analyze_repository_r r of
        Raised \<Rightarrow>
          ([CreateGenerator, ValidateUrl, FetchMetadata, Clone, Analyze], ExceptHandler)
      | Returned _ \<Rightarrow>
     (case generate_skill_r r of
        Raised \<Rightarrow>
          ([CreateGenerator, ValidateUrl, FetchMetadata, Clone, Analyze, Generate], ExceptHandler)
      | Returned skill_data \<Rightarrow>
          if \<not> skill_data then
            ([CreateGenerator, ValidateUrl, FetchMetadata, Clone, Analyze, Generate, Cleanup],
             EarlyReturn)
          else
     (case build_skill_r r of
        Raised \<Rightarrow>
          ([CreateGenerator, ValidateUrl, FetchMetadata, Clone, Analyze, Generate, Build],
           ExceptHandler)
      | Returned _ \<Rightarrow>
     (case validate_skill_r r of
        Raised \<Rightarrow>
          ([CreateGenerator, ValidateUrl, FetchMetadata, Clone, Analyze, Generate, Build,
            ValidateSkill], ExceptHandler)
      | Returned _ \<Rightarrow>
     (case package_skill_r r of
        Raised \<Rightarrow>
          ([CreateGenerator, ValidateUrl, FetchMetadata, Clone, Analyze, Generate, Build,
            ValidateSkill, Package], ExceptHandler)
      | Returned success \<Rightarrow>
          if \<not> success then
            ([CreateGenerator, ValidateUrl, FetchMetadata, Clone, Analyze, Generate, Build,
              ValidateSkill, Package, Cleanup], EarlyReturn)
          else
     (case add_skill_r r of
        Raised \<Rightarrow>
          ([CreateGenerator, ValidateUrl, FetchMetadata, Clone, Analyze, Generate, Build,
            ValidateSkill, Package, Cleanup, AddSkill], ExceptHandler)
      | Returned _ \<Rightarrow>
          ([CreateGenerator, ValidateUrl, FetchMetadata, Clone, Analyze, Generate, Build,
            ValidateSkill, Package, Cleanup, AddSkill], Completed)))))))))))"

definition cloned :: "run \<Rightarrow> bool" where
  "cloned r \<longleftrightarrow> Clone \<in> set (fst (generate_skill_workflow r)) \<and> clone_repository_r r = Returned True"

definition cleanups :: "run \<Rightarrow> nat" where
  "cleanups r = count_list (fst (generate_skill_workflow r)) Cleanup"

definition builder_fault :: run where
  "builder_fault =
     \<lparr> create_generator_r = Returned (), validate_github_url_r = Returned True,
       fetch_repo_metadata_r = Returned True, clone_repository_r = Returned True,
       analyze_repository_r = Returned (), generate_skill_r = Returned True,
       build_skill_r = Raised, validate_skill_r = Returned True,
       package_skill_r = Returned True, add_skill_r = Returned () \<rparr>"

section \<open>URLs (\<open>urllib.parse\<close> and \<open>repo_analyzer.py\<close>)\<close>

text \<open>\<open>s[i:]\<close> and \<open>s.find(sub, start)\<close>.\<close>

definition py_from :: "'a list \<Rightarrow> int \<Rightarrow> 'a list" where
  "py_from s i = py_slice s i (int (length s))"

definition py_find_at :: "pystr \<Rightarrow> pystr \<Rightarrow> int \<Rightarrow> int" where
  "py_find_at s sub start =
     (let n = int (length s);
          a = (if start < 0 then max 0 (start + n) else start)
      in if a > n then - 1 else find_from sub (drop (nat a) s) (nat a))"

text \<open>\<open>s.replace(c, "")\<close> for a single code point \<open>c\<close>.\<close>

definition remove_char :: "nat \<Rightarrow> pystr \<Rightarrow> pystr" where
  "remove_char c s = filter (\<lambda>x. x \<noteq> c) s"

text \<open>
  \<open>s.replace(old, new)\<close>: the occurrences of \<open>old\<close> are replaced from left to right,
  without overlap; for an empty \<open>old\<close>, \<open>new\<close> is put before every code point and at the
  end.
\<close>

function replace_ne :: "pystr \<Rightarrow> pystr \<Rightarrow> pystr \<Rightarrow> pystr" where
  "replace_ne old new [] = []"
| "replace_ne old new (c # cs) =
     (if old \<noteq> [] \<and> prefix old (c # cs)
      then new @ replace_ne old new (drop (length old) (c # cs))
      else c # replace_ne old new cs)"
  by pat_completeness auto
termination
  by (relation "measure (\<lambda>(old, new, s). length s)") (auto simp: neq_Nil_conv)

definition py_replace :: "pystr \<Rightarrow> pystr \<Rightarrow> pystr \<Rightarrow> pystr" where
  "py_replace s old new =
     (if old = [] then new @ concat (map (\<lambda>c. c # new) s) else replace_ne old new s)"

text \<open>\<open>s.split(sep)\<close> for a separator of one code point: never the empty list.\<close>

fun split_on :: "nat \<Rightarrow> pystr \<Rightarrow> pystr list" where
  "split_on sep [] = [[]]"
| "split_on sep (c # cs) =
     (case split_on sep cs of
        [] \<Rightarrow> [[c]]
      | p # ps \<Rightarrow> if c = sep then [] # p # ps else (c # p) # ps)"

definition is_ascii_alpha :: "nat \<Rightarrow> bool" where
  "is_ascii_alpha c \<longleftrightarrow> (97 \<le> c \<and> c \<le> 122) \<or> (65 \<le> c \<and> c \<le> 90)"

definition is_scheme_char :: "nat \<Rightarrow> bool" where
  "is_scheme_char c \<longleftrightarrow> is_ascii_alpha c \<or> is_digit c \<or> c = 43 \<or> c = 45 \<or> c = 46"

definition uses_params :: "pystr list" where
  "uses_params =
     [[], asc ''ftp'', asc ''hdl'', asc ''prospero'', asc ''http'', asc ''imap'', asc ''https'',
      asc ''shttp'', asc ''rtsp'', asc ''rtsps'', asc ''rtspu'', asc ''sip'', asc ''sips'',
      asc ''mms'', asc ''sftp'', asc ''tel'']"

text \<open>
  Two checks of \<open>urlsplit\<close> rest on library data that is not modelled: the check of a
  bracketed host (the \<open>ipaddress\<close> module) and the check of a netloc beyond ASCII (NFKC
  normalisation). They are parameters: each tells whether the check raises
  \<open>ValueError\<close> for its argument.
\<close>

record lib =
  bracketed_host_raises :: "pystr \<Rightarrow> bool"
  nfkc_raises :: "pystr \<Rightarrow> bool"

record parse_result =
  scheme :: pystr
  netloc :: pystr
  path :: pystr
  params :: pystr
  query :: pystr
  fragment :: pystr

text \<open>\<open>_splitnetloc(url, start)\<close>: the netloc ends at the first of \<open>/\<close>, \<open>?\<close>, \<open>#\<close>.\<close>

definition narrow :: "pystr \<Rightarrow> nat \<Rightarrow> int \<Rightarrow> nat \<Rightarrow> int" where
  "narrow url start delim c =
     (let wdelim = py_find_at url [c] (int start)
      in if wdelim \<ge> 0 then min delim wdelim else delim)"

definition splitnetloc :: "pystr \<Rightarrow> nat \<Rightarrow> pystr \<times> pystr" where
  "splitnetloc url start =
     (let delim = foldl (narrow url start) (int (length url)) (asc ''/?#'')
      in (py_slice url (int start) delim, py_from url delim))"

text \<open>\<open>url.split(c, 1)\<close> when \<open>c\<close> occurs in \<open>url\<close>: the text before and after the first \<open>c\<close>.\<close>

definition split_first :: "pystr \<Rightarrow> nat \<Rightarrow> pystr \<times> pystr" where
  "split_first url c =
     (let i = py_find url [c] in (py_slice url 0 i, py_from url (i + 1)))"

definition urlsplit :: "lib \<Rightarrow> pystr \<Rightarrow> pyerr + (pystr \<times> pystr \<times> pystr \<times> pystr \<times> pystr)" where
  "urlsplit L url0 =
     (let url1 = remove_char 10 (remove_char 13 (remove_char 9 (dropWhile (\<lambda>c. c \<le> 32) url0)));
          i = py_find url1 (asc '':'');
          (scheme', url2) =
            (if i > 0 \<and> is_ascii_alpha (hd url1) \<and> list_all is_scheme_char (py_slice url1 0 i)
             then (map ascii_lower (py_slice url1 0 i), py_from url1 (i + 1))
             else ([], url1));
          (netloc', url3) =
            (if py_slice url2 0 2 = asc ''//'' then splitnetloc url2 2 else ([], url2))
      in if py_slice url2 0 2 = asc ''//'' \<and> (91 \<in> set netloc') \<noteq> (93 \<in> set netloc')
         then Inl ValueError
         else if py_slice url2 0 2 = asc ''//'' \<and> 91 \<in> set netloc' \<and> 93 \<in> set netloc' \<and>
                 bracketed_host_raises L
                   (takeWhile (\<lambda>c. c \<noteq> 93) (drop 1 (dropWhile (\<lambda>c. c \<noteq> 91) netloc')))
         then Inl ValueError
         else
           (let (url4, fragment') =
                  (if 35 \<in> set url3 then split_first url3 35 else (url3, []));
                (url5, query') =
                  (if 63 \<in> set url4 then split_first url4 63 else (url4, []))
            in if netloc' \<noteq> [] \<and> \<not> list_all (\<lambda>c. c < 128) netloc' \<and> nfkc_raises L netloc'
               then Inl ValueError
               else Inr (scheme', netloc', url5, query', fragment')))"

definition splitparams :: "pystr \<Rightarrow> pystr \<times> pystr" where
  "splitparams url =
     (if 47 \<in> set url then
        (let i = py_find_at url (asc '';'') (py_rfind url (asc ''/''))
         in if i < 0 then (url, []) else (py_slice url 0 i, py_from url (i + 1)))
      else
        (let i = py_find url (asc '';'') in (py_slice url 0 i, py_from url (i + 1))))"

definition urlparse :: "lib \<Rightarrow> pystr \<Rightarrow> pyerr + parse_result" where
  "urlparse L url =
     (case urlsplit L url of
        Inl e \<Rightarrow> Inl e
      | Inr (scheme', netloc', url', query', fragment') \<Rightarrow>
          (let (url'', params') =
                 (if scheme' \<in> set uses_params \<and> 59 \<in> set url' then splitparams url'
                  else (url', []))
           in Inr \<lparr> scheme = scheme', netloc = netloc', path = url'', params = params',
                    query = query', fragment = fragment' \<rparr>))"

text \<open>
  \<open>re.match(r'^[...]+$', s)\<close> for a character class that excludes the newline: \<open>$\<close>
  matches at the end of the text and also just before a newline that ends the text.
\<close>

definition is_owner_char :: "nat \<Rightarrow> bool" where
  "is_owner_char c \<longleftrightarrow>
     (97 \<le> c \<and> c \<le> 122) \<or> (65 \<le> c \<and> c \<le> 90) \<or> (48 \<le> c \<and> c \<le> 57) \<or> c = 95 \<or> c = 45"

definition is_repo_char :: "nat \<Rightarrow> bool" where
  "is_repo_char c \<longleftrightarrow> is_owner_char c \<or> c = 46"

definition re_match_plus :: "(nat \<Rightarrow> bool) \<Rightarrow> pystr \<Rightarrow> bool" where
  "re_match_plus P s \<longleftrightarrow>
     takeWhile P s \<noteq> [] \<and> (dropWhile P s = [] \<or> dropWhile P s = [10])"

definition path_parts_of :: "pystr \<Rightarrow> pystr list" where
  "path_parts_of p = split_on 47 (strip_chars (\<lambda>c. c = 47) p)"

definition validate_github_url :: "lib \<Rightarrow> pystr \<Rightarrow> bool \<times> pystr" where
  "validate_github_url L url =
     (if url = [] then (False, asc ''URL cannot be empty'')
      else if length url > 500 then (False, asc ''URL is too long'')
      else
        (case urlparse L url of
           Inl e \<Rightarrow> (False, asc ''Invalid URL format'')
         | Inr parsed \<Rightarrow>
             if scheme parsed \<noteq> asc ''https'' then (False, asc ''URL must use HTTPS protocol'')
             else if netloc parsed \<notin> set [asc ''github.com'', asc ''www.github.com'']
             then (False, asc ''URL must be a GitHub repository'')
             else
               (let path_parts = path_parts_of (path parsed)
                in if length path_parts < 2
                   then (False, asc ''Invalid GitHub repository URL format'')
                   else
                     (let owner = path_parts ! 0;
                          repo = py_replace (path_parts ! 1) (asc ''.git'') []
                      in if \<not> re_match_plus is_owner_char owner
                         then (False, asc ''Invalid repository owner name'')
                         else if \<not> re_match_plus is_repo_char repo
                         then (False, asc ''Invalid repository name'')
                         else (True, [])))))"

record repo_info =
  owner :: pystr
  repo :: pystr
  full_name :: pystr

text \<open>
  \<open>extract_repo_info\<close>: \<open>urlparse\<close> may raise, and \<open>path_parts[1]\<close> raises
  \<open>IndexError\<close> when the path has one segment only.
\<close>

definition extract_repo_info :: "lib \<Rightarrow> pystr \<Rightarrow> pyerr + repo_info" where
  "extract_repo_info L url =
     (case urlparse L url of
        Inl e \<Rightarrow> Inl e
      | Inr parsed \<Rightarrow>
          (let path_parts = path_parts_of (path parsed)
           in if length path_parts < 2 then Inl IndexError
              else
                (let repo_name = py_replace (path_parts ! 1) (asc ''.git'') []
                 in Inr \<lparr> owner = path_parts ! 0, repo = repo_name,
                          full_name = path_parts ! 0 @ asc ''/'' @ repo_name \<rparr>)))"

text \<open>The patterns of the specification, as full matches, and the stripping of a suffix.\<close>

definition owner_ok :: "pystr \<Rightarrow> bool" where
  "owner_ok s \<longleftrightarrow> s \<noteq> [] \<and> list_all is_owner_char s"

definition repo_ok :: "pystr \<Rightarrow> bool" where
  "repo_ok s \<longleftrightarrow> s \<noteq> [] \<and> list_all is_repo_char s"

definition strip_git_suffix :: "pystr \<Rightarrow> pystr" where
  "strip_git_suffix s =
     (if suffix (asc ''.git'') s then take (length s - 4) s else s)"

text \<open>A library whose two unmodelled checks never raise, for the concrete examples.\<close>

definition lenient :: lib where
  "lenient = \<lparr> bracketed_host_raises = (\<lambda>h. False), nfkc_raises = (\<lambda>n. False) \<rparr>"

text \<open>
  The reading of a URL on the input text itself: the scheme is the text before the
  first \<open>:\<close>, the host the text between \<open>//\<close> and the next \<open>/\<close>, \<open>?\<close> or \<open>#\<close>, the path
  what follows the host up to \<open>?\<close> or \<open>#\<close>, and the segments are those of the path.
\<close>

definition text_scheme :: "pystr \<Rightarrow> pystr" where
  "text_scheme url = takeWhile (\<lambda>c. c \<noteq> 58) url"

definition text_rest :: "pystr \<Rightarrow> pystr" where
  "text_rest url = drop (Suc (length (text_scheme url))) url"

definition not_delim :: "nat \<Rightarrow> bool" where
  "not_delim c \<longleftrightarrow> c \<noteq> 47 \<and> c \<noteq> 63 \<and> c \<noteq> 35"

definition text_host :: "pystr \<Rightarrow> pystr" where
  "text_host url =
     (if prefix (asc ''//'') (text_rest url)
      then takeWhile not_delim (drop 2 (text_rest url)) else [])"

definition text_path :: "pystr \<Rightarrow> pystr" where
  "text_path url =
     takeWhile (\<lambda>c. c \<noteq> 63 \<and> c \<noteq> 35)
       (if prefix (asc ''//'') (text_rest url)
        then dropWhile not_delim (drop 2 (text_rest url)) else text_rest url)"

definition text_segments :: "pystr \<Rightarrow> pystr list" where
  "text_segments url = path_parts_of (text_path url)"

text \<open>
  The texts that \<open>urlsplit\<close> and \<open>urlparse\<close> read as they stand: no tab, carriage
  return or line feed (which are removed), no leading control character or space (which
  is stripped), and no \<open>;\<close> (which starts the parameters of the last segment).
\<close>

definition clean_text :: "pystr \<Rightarrow> bool" where
  "clean_text url \<longleftrightarrow>
     9 \<notin> set url \<and> 10 \<notin> set url \<and> 13 \<notin> set url \<and> 59 \<notin> set url \<and>
     (url = [] \<or> 32 < hd url)"

text \<open>The stages of \<open>urlsplit\<close>, named for the proofs.\<close>

definition cleaned :: "pystr \<Rightarrow> pystr" where
  "cleaned url = remove_char 10 (remove_char 13 (remove_char 9 (dropWhile (\<lambda>c. c \<le> 32) url)))"

definition scheme_split :: "pystr \<Rightarrow> pystr \<times> pystr" where
  "scheme_split url1 =
     (if py_find url1 (asc '':'') > 0 \<and> is_ascii_alpha (hd url1) \<and>
         list_all is_scheme_char (py_slice url1 0 (py_find url1 (asc '':'')))
      then (map ascii_lower (py_slice url1 0 (py_find url1 (asc '':''))),
            py_from url1 (py_find url1 (asc '':'') + 1))
      else ([], url1))"

definition netloc_split :: "pystr \<Rightarrow> pystr \<times> pystr" where
  "netloc_split url2 =
     (if py_slice url2 0 2 = asc ''//'' then splitnetloc url2 2 else ([], url2))"

definition path_split :: "pystr \<Rightarrow> pystr" where
  "path_split url3 =
     fst (if 63 \<in> set (fst (if 35 \<in> set url3 then split_first url3 35 else (url3, [])))
          then split_first (fst (if 35 \<in> set url3 then split_first url3 35 else (url3, []))) 63
          else (fst (if 35 \<in> set url3 then split_first url3 35 else (url3, [])), []))"

section \<open>README extraction and prompt assembly\<close>

text \<open>
  A file as \<open>_extract_readme\<close> meets it: the size \<open>stat\<close> reports and the text
  \<open>read\<close> returns, \<open>None\<close> where the call raises. The top level of the clone maps a
  name to such a file, or to \<open>None\<close> when nothing of that name exists.
\<close>

record disk_file =
  stat_size :: "nat option"
  read_text :: "pystr option"

definition readme_patterns :: "pystr list" where
  "readme_patterns = [asc ''README.md'', asc ''README.rst'', asc ''README.txt'', asc ''README'']"

definition max_readme_size :: nat where
  "max_readme_size = 1024 * 1024"

fun first_readme :: "(pystr \<Rightarrow> disk_file option) \<Rightarrow> pystr list \<Rightarrow> pystr" where
  "first_readme dir [] = []"
| "first_readme dir (pattern # rest) =
     (case dir pattern of
        None \<Rightarrow> first_readme dir rest
      | Some f \<Rightarrow>
          (case stat_size f of
             None \<Rightarrow> first_readme dir rest
           | Some n \<Rightarrow>
               if n > max_readme_size then first_readme dir rest
               else
                 (case read_text f of
                    None \<Rightarrow> first_readme dir rest
                  | Some t \<Rightarrow> t)))"

definition extract_readme :: "(pystr \<Rightarrow> disk_file option) \<Rightarrow> pystr" where
  "extract_readme dir = first_readme dir readme_patterns"

text \<open>
  The analysis dictionary, with the keys \<open>_prepare_prompt\<close> reads; \<open>None\<close> is a missing
  key. \<open>analyze_repository\<close> sets every key; the structure, type and languages are
  given by the results of their extraction methods.
\<close>

record analysis =
  readme_content :: "pystr option"
  file_structure :: "(pystr \<times> pystr) list option"
  code_samples :: "code_sample list option"
  repo_type :: "pystr option"
  languages :: "pystr list option"

definition analyze_repository ::
  "(pystr \<Rightarrow> nat \<Rightarrow> pystr) \<Rightarrow> repo \<Rightarrow> (pystr \<Rightarrow> disk_file option) \<Rightarrow>
   (pystr \<times> pystr) list \<Rightarrow> pystr \<Rightarrow> pystr list \<Rightarrow> analysis" where
  "analyze_repository u r dir structure rtype langs =
     \<lparr> readme_content = Some (extract_readme dir),
       file_structure = Some structure,
       code_samples = Some (extract_code_samples u r),
       repo_type = Some rtype,
       languages = Some langs \<rparr>"

text \<open>The \<open>description\<close> of the repository metadata: no such key, \<open>null\<close>, or a text.\<close>

datatype description = NoKey | Null | Text pystr

text \<open>\<open>str(n)\<close> for a natural number.\<close>

function nat_str :: "nat \<Rightarrow> pystr" where
  "nat_str n = (if n < 10 then [48 + n] else nat_str (n div 10) @ [48 + n mod 10])"
  by pat_completeness auto
termination
  by (relation "measure id") auto

definition sample_text :: "nat \<times> code_sample \<Rightarrow> pystr" where
  "sample_text p =
     (case p of (i, sample) \<Rightarrow>
        asc ''\<newline>## Sample '' @ nat_str i @ asc '': '' @ sample_file sample @ asc ''\<newline>\<newline>''
        @ asc ''```'' @ language sample @ asc ''\<newline>'' @ content sample @ asc ''\<newline>```\<newline>'')"

definition code_samples_text :: "analysis \<Rightarrow> pystr" where
  "code_samples_text a =
     (case code_samples a of
        None \<Rightarrow> asc ''No code samples available''
      | Some samples \<Rightarrow>
          if samples = [] then asc ''No code samples available''
          else concat (map sample_text (enumerate 1 (py_slice samples 0 3))))"

definition structure_line :: "pystr \<times> pystr \<Rightarrow> pystr" where
  "structure_line p =
     (case p of (name, type_info) \<Rightarrow> asc ''- '' @ name @ asc '' ('' @ type_info @ asc '')\<newline>'')"

definition file_structure_text :: "analysis \<Rightarrow> pystr" where
  "file_structure_text a =
     (case file_structure a of
        None \<Rightarrow> asc ''File structure not available''
      | Some items \<Rightarrow>
          if items = [] then asc ''File structure not available''
          else concat (map structure_line (py_slice items 0 20)))"

text \<open>The keyword arguments of \<open>prompt_template.format\<close>.\<close>

definition prompt_fields ::
  "pystr \<Rightarrow> pystr \<Rightarrow> description \<Rightarrow> analysis \<Rightarrow> (pystr \<times> pystr) list" where
  "prompt_fields repo_name repo_url descr a =
     [(asc ''repo_name'', repo_name),
      (asc ''repo_url'', repo_url),
      (asc ''repo_type'', (case repo_type a of None \<Rightarrow> asc ''unknown'' | Some t \<Rightarrow> t)),
      (asc ''languages'',
         join_with (asc '', '')
           (case languages a of None \<Rightarrow> [asc ''Unknown''] | Some ls \<Rightarrow> ls)),
      (asc ''repo_description'',
         (case descr of
            NoKey \<Rightarrow> asc ''No description available''
          | Null \<Rightarrow> asc ''None''
          | Text t \<Rightarrow> t)),
      (asc ''readme_content'',
         py_slice (case readme_content a of None \<Rightarrow> asc ''README not found'' | Some t \<Rightarrow> t)
           0 8000),
      (asc ''file_structure'', file_structure_text a),
      (asc ''code_samples'', code_samples_text a)]"

text \<open>
  The template file is not part of the sources; it is taken in parsed form, a sequence
  of literal texts and named replacement fields. \<open>str.format\<close> raises \<open>KeyError\<close> for
  a field that is not among the keyword arguments.
\<close>

datatype segment = Lit pystr | Field pystr

fun format_template :: "segment list \<Rightarrow> (pystr \<times> pystr) list \<Rightarrow> pyerr + pystr" where
  "format_template [] kw = Inr []"
| "format_template (Lit t # rest) kw =
     (case format_template rest kw of Inl e \<Rightarrow> Inl e | Inr out \<Rightarrow> Inr (t @ out))"
| "format_template (Field k # rest) kw =
     (case map_of kw k of
        None \<Rightarrow> Inl KeyError
      | Some v \<Rightarrow>
          (case format_template rest kw of Inl e \<Rightarrow> Inl e | Inr out \<Rightarrow> Inr (v @ out)))"

definition prepare_prompt ::
  "segment list \<Rightarrow> pystr \<Rightarrow> pystr \<Rightarrow> description \<Rightarrow> analysis \<Rightarrow> pyerr + pystr" where
  "prepare_prompt prompt_template repo_name repo_url descr a =
     format_template prompt_template (prompt_fields repo_name repo_url descr a)"

text \<open>A clone without any README, and a template with the README slot only.\<close>

definition no_readme :: "pystr \<Rightarrow> disk_file option" where
  "no_readme name = None"

definition readme_template :: "segment list" where
  "readme_template = [Lit (asc ''README: ''), Field (asc ''readme_content''), Lit (asc ''.'')]"

section \<open>Cloning (\<open>repo_analyzer.py\<close>)\<close>

text \<open>\<open>re.sub(r'[^a-zA-Z0-9_-]', '_', s)\<close>: the class is the one of the owner pattern.\<close>

definition safe_name :: "pystr \<Rightarrow> pystr" where
  "safe_name s = map (\<lambda>c. if is_owner_char c then c else 95) s"

text \<open>
  \<open>base / s\<close> of \<open>pathlib\<close> on POSIX, for an absolute \<open>base\<close> given by its components
  below \<open>/\<close>: the text is cut at \<open>/\<close>, empty components and \<open>.\<close> are dropped, \<open>..\<close> is
  kept, and a text that starts with \<open>/\<close> replaces the base.
\<close>

definition path_components :: "pystr \<Rightarrow> pystr list" where
  "path_components s = filter (\<lambda>p. p \<noteq> [] \<and> p \<noteq> asc ''.'') (split_on 47 s)"

definition path_join :: "pystr list \<Rightarrow> pystr \<Rightarrow> pystr list" where
  "path_join base s =
     (if prefix (asc ''/'') s then path_components s else base @ path_components s)"

text \<open>
  The file system and git as one call of \<open>clone_repository\<close> meets them. \<open>resolve\<close>
  gives the components of the resolved path (\<open>None\<close>: it raises); it follows symbolic
  links, so nothing is assumed of it. \<open>path_exists\<close> is the test for an earlier clone,
  \<open>exists_after_failure\<close> the test made by the exception handlers.
\<close>

datatype clone_result = Cloned nat | GitCommandError | OtherError

record clone_env =
  resolve :: "pystr list \<Rightarrow> pystr list option"
  path_exists :: "pystr list \<Rightarrow> bool"
  rmtree_raises :: "pystr list \<Rightarrow> bool"
  git_clone :: "pystr list \<Rightarrow> clone_result"
  exists_after_failure :: "pystr list \<Rightarrow> bool"

datatype fs_op = Rmtree "pystr list" | GitClone "pystr list"

definition max_clone_size :: nat where
  "max_clone_size = 500 * 1024 * 1024"

text \<open>The exception handlers after a failed clone: remove what is there.\<close>

definition after_failure ::
  "clone_env \<Rightarrow> pystr list \<Rightarrow> fs_op list \<Rightarrow> (pyerr + pystr list option) \<times> fs_op list" where
  "after_failure env clone_path ops =
     (if exists_after_failure env clone_path then
        (if rmtree_raises env clone_path then (Inl OSError, ops @ [Rmtree clone_path])
         else (Inr None, ops @ [Rmtree clone_path]))
      else (Inr None, ops))"

text \<open>
  \<open>clone_repository\<close>: what it returns (\<open>Inr None\<close> is \<open>None\<close>, \<open>Inl e\<close> an exception
  that leaves the function) and the mutations of the file system it makes, in order.
\<close>

definition clone_repository ::
  "lib \<Rightarrow> clone_env \<Rightarrow> pystr list \<Rightarrow> pystr \<Rightarrow> (pyerr + pystr list option) \<times> fs_op list" where
  "clone_repository L env temp_dir repo_url =
     (if \<not> fst (validate_github_url L repo_url) then (Inr None, [])
      else
        (case extract_repo_info L repo_url of
           Inl e \<Rightarrow> (Inl e, [])
         | Inr info \<Rightarrow>
             (case resolve env (path_join temp_dir (safe_name (full_name info))) of
                None \<Rightarrow> (Inr None, [])
              | Some clone_path \<Rightarrow>
                  (case resolve env temp_dir of
                     None \<Rightarrow> (Inr None, [])
                   | Some root \<Rightarrow>
                       if \<not> prefix (abs_str root) (abs_str clone_path) then (Inr None, [])
                       else if path_exists env clone_path \<and> rmtree_raises env clone_path
                       then (Inr None, [Rmtree clone_path])
                       else
                         (let ops = (if path_exists env clone_path then [Rmtree clone_path] else [])
                                    @ [GitClone clone_path]
                          in case git_clone env clone_path of
                               Cloned total_size \<Rightarrow>
                                 if total_size > max_clone_size then
                                   (if rmtree_raises env clone_path
                                    then after_failure env clone_path (ops @ [Rmtree clone_path])
                                    else (Inr None, ops @ [Rmtree clone_path]))
                                 else (Inr (Some clone_path), ops)
                             | GitCommandError \<Rightarrow> after_failure env clone_path ops
                             | OtherError \<Rightarrow> after_failure env clone_path ops)))))"

text \<open>
  Two file systems for the examples: one without symbolic links, and one in which the
  clone directory \<open>/data/temp/owner_repo\<close> is a symbolic link to the directory
  \<open>/data/temp_old/owner_repo\<close>, beside the scratch root \<open>/data/temp\<close>.
\<close>

definition plain_env :: clone_env where
  "plain_env =
     \<lparr> resolve = (\<lambda>p. Some p), path_exists = (\<lambda>p. False), rmtree_raises = (\<lambda>p. False),
       git_clone = (\<lambda>p. Cloned 1000), exists_after_failure = (\<lambda>p. False) \<rparr>"

definition linked_env :: clone_env where
  "linked_env =
     \<lparr> resolve = (\<lambda>p. if p = [asc ''data'', asc ''temp'', asc ''owner_repo'']
                        then Some [asc ''data'', asc ''temp_old'', asc ''owner_repo'']
                        else Some p),
       path_exists = (\<lambda>p. True), rmtree_raises = (\<lambda>p. False),
       git_clone = (\<lambda>p. Cloned 1000), exists_after_failure = (\<lambda>p. False) \<rparr>"

section \<open>Properties of response parsing\<close>

subsection \<open>What the validator accepts\<close>

lemma map_of_dict_set: "map_of (dict_set k v kvs) = (map_of kvs)(k \<mapsto> v)"
  by (induction kvs) (auto simp: fun_upd_twist)

lemma key_of_Some: "map_of kvs k = Some v \<Longrightarrow> k \<in> fst ` set kvs"
  by (metis map_of_eq_None_iff option.distinct(1))

lemma all_in_obj: "all_in ks (JObj kvs) = Inr (\<forall>k \<in> set ks. k \<in> fst ` set kvs)"
  by (induction ks) auto

lemma all_in_arr: "\<exists>b. all_in ks (JArr xs) = Inr b"
  by (induction ks) auto

lemma all_in_str: "\<exists>b. all_in ks (JStr s) = Inr b"
  by (induction ks) auto

lemma validate_not_dict: "\<not> is_dict d \<Longrightarrow> validate_skill_data d \<noteq> Inr True"
proof (cases d)
  case (JArr xs)
  obtain b where "all_in required_keys (JArr xs) = Inr b" using all_in_arr by blast
  with JArr show ?thesis by (simp add: validate_skill_data_def)
next
  case (JStr s)
  obtain b where "all_in required_keys (JStr s) = Inr b" using all_in_str by blast
  with JStr show ?thesis by (simp add: validate_skill_data_def)
qed (simp_all add: validate_skill_data_def required_keys_def)

lemma validate_obj_I:
  assumes "map_of kvs (asc ''skill_md'') = Some (JObj sm)"
    and "map_of sm (asc ''frontmatter'') = Some fm"
    and "map_of sm (asc ''content'') = Some c"
    and "py_in (asc ''name'') fm = Inr True"
    and "py_in (asc ''description'') fm = Inr True"
    and "map_of kvs (asc ''references'') = Some (JArr rs)"
    and "map_of kvs (asc ''templates'') = Some (JArr ts)"
  shows "validate_skill_data (JObj kvs) = Inr True"
  using assms
  by (simp add: validate_skill_data_def all_in_obj required_keys_def key_of_Some)

lemma validate_obj_D:
  assumes v: "validate_skill_data (JObj kvs) = Inr True"
  shows "\<exists>sm fm c rs ts.
        map_of kvs (asc ''skill_md'') = Some (JObj sm) \<and>
        map_of sm (asc ''frontmatter'') = Some fm \<and>
        map_of sm (asc ''content'') = Some c \<and>
        py_in (asc ''name'') fm = Inr True \<and>
        py_in (asc ''description'') fm = Inr True \<and>
        map_of kvs (asc ''references'') = Some (JArr rs) \<and>
        map_of kvs (asc ''templates'') = Some (JArr ts)"
proof -
  note defs = validate_skill_data_def all_in_obj required_keys_def
  have S: "asc ''skill_md'' \<in> fst ` set kvs"
  proof (rule ccontr)
    assume "\<not> ?thesis"
    then have "validate_skill_data (JObj kvs) = Inr False" by (simp add: defs)
    with v show False by simp
  qed
  have R: "asc ''references'' \<in> fst ` set kvs"
  proof (rule ccontr)
    assume "\<not> ?thesis"
    then have "validate_skill_data (JObj kvs) = Inr False" by (simp add: defs)
    with v show False by simp
  qed
  have T: "asc ''templates'' \<in> fst ` set kvs"
  proof (rule ccontr)
    assume "\<not> ?thesis"
    then have "validate_skill_data (JObj kvs) = Inr False" by (simp add: defs)
    with v show False by simp
  qed
  from S obtain smv where smv: "map_of kvs (asc ''skill_md'') = Some smv"
    by (metis map_of_eq_None_iff not_Some_eq)
  from R obtain rv where rv: "map_of kvs (asc ''references'') = Some rv"
    by (metis map_of_eq_None_iff not_Some_eq)
  from T obtain tv where tv: "map_of kvs (asc ''templates'') = Some tv"
    by (metis map_of_eq_None_iff not_Some_eq)
  have "is_dict smv"
  proof (rule ccontr)
    assume "\<not> ?thesis"
    then have "validate_skill_data (JObj kvs) = Inr False" by (simp add: defs S R T smv)
    with v show False by simp
  qed
  then obtain sm where sm: "smv = JObj sm" by (cases smv) auto
  have F: "asc ''frontmatter'' \<in> fst ` set sm"
  proof (rule ccontr)
    assume "\<not> ?thesis"
    then have "validate_skill_data (JObj kvs) = Inr False" by (simp add: defs S R T smv sm)
    with v show False by simp
  qed
  have C: "asc ''content'' \<in> fst ` set sm"
  proof (rule ccontr)
    assume "\<not> ?thesis"
    then have "validate_skill_data (JObj kvs) = Inr False" by (simp add: defs S R T smv sm F)
    with v show False by simp
  qed
  from F obtain fm where fm: "map_of sm (asc ''frontmatter'') = Some fm"
    by (metis map_of_eq_None_iff not_Some_eq)
  from C obtain c where c: "map_of sm (asc ''content'') = Some c"
    by (metis map_of_eq_None_iff not_Some_eq)
  note base = defs S R T smv sm F C fm
  have N: "py_in (asc ''name'') fm = Inr True"
  proof (cases "py_in (asc ''name'') fm")
    case (Inl e)
    then have "validate_skill_data (JObj kvs) = Inl e" by (simp add: base)
    with v show ?thesis by simp
  next
    case (Inr b)
    show ?thesis
    proof (cases b)
      case True with Inr show ?thesis by simp
    next
      case False
      with Inr have "validate_skill_data (JObj kvs) = Inr False" by (simp add: base)
      with v show ?thesis by simp
    qed
  qed
  have D: "py_in (asc ''description'') fm = Inr True"
  proof (cases "py_in (asc ''description'') fm")
    case (Inl e)
    then have "validate_skill_data (JObj kvs) = Inl e" by (simp add: base N)
    with v show ?thesis by simp
  next
    case (Inr b)
    show ?thesis
    proof (cases b)
      case True with Inr show ?thesis by simp
    next
      case False
      with Inr have "validate_skill_data (JObj kvs) = Inr False" by (simp add: base N)
      with v show ?thesis by simp
    qed
  qed
  have "is_list rv"
  proof (rule ccontr)
    assume "\<not> ?thesis"
    then have "validate_skill_data (JObj kvs) = Inr False" by (simp add: base N D rv)
    with v show False by simp
  qed
  then obtain rs where rs: "rv = JArr rs" by (cases rv) auto
  have "is_list tv"
  proof (rule ccontr)
    assume "\<not> ?thesis"
    then have "validate_skill_data (JObj kvs) = Inr False" by (simp add: base N D rv rs tv)
    with v show False by simp
  qed
  then obtain ts where ts: "tv = JArr ts" by (cases tv) auto
  show ?thesis using smv sm fm c N D rv rs tv ts by simp
qed

subsection \<open>The candidate text\<close>

lemma rfind_short: "length s < length sub \<Longrightarrow> rfind_from sub s i = - 1"
proof (induction s arbitrary: i)
  case Nil then show ?case by auto
next
  case (Cons c cs)
  then have "\<not> prefix sub (c # cs)" by (auto dest: prefix_length_le)
  with Cons show ?case by (simp add: Let_def)
qed

lemma rfind_suffix: "sub \<noteq> [] \<Longrightarrow> rfind_from sub (t @ sub) i = int (i + length t)"
proof (induction t arbitrary: i)
  case Nil
  then obtain c cs where sub: "sub = c # cs" by (cases sub) auto
  have "rfind_from sub cs (Suc i) = - 1" by (rule rfind_short) (simp add: sub)
  then show ?case by (simp add: sub Let_def)
next
  case (Cons a t)
  then show ?case by (simp add: Let_def)
qed

lemma contains_prefix: "prefix sub s \<Longrightarrow> py_contains sub s"
  by (cases s) auto

lemma find_prefix: "prefix sub s \<Longrightarrow> find_from sub s i = int i"
  by (cases s) auto

lemma contains_weaken: "py_contains (a @ b) s \<Longrightarrow> py_contains a s"
  by (induction s) (auto dest: append_prefixD)

lemma strip_pad:
  assumes "\<forall>c \<in> set w1. P c" "\<forall>c \<in> set w2. P c"
  shows "strip_chars P (w1 @ p @ w2) = strip_chars P p"
proof -
  have a: "dropWhile P (w1 @ p @ w2) = dropWhile P (p @ w2)"
    using assms(1) by (simp add: dropWhile_append2)
  show ?thesis
  proof (cases "\<forall>c \<in> set p. P c")
    case True
    then have e1: "dropWhile P (p @ w2) = []" using assms(2) by (simp add: dropWhile_eq_Nil_conv)
    from True have e2: "dropWhile P p = []" by (simp add: dropWhile_eq_Nil_conv)
    show ?thesis unfolding strip_chars_def a e1 e2 by simp
  next
    case False
    then obtain x where "x \<in> set p" "\<not> P x" by blast
    then have e: "dropWhile P (p @ w2) = dropWhile P p @ w2" by simp
    have "dropWhile P (rev w2 @ rev (dropWhile P p)) = dropWhile P (rev (dropWhile P p))"
      by (rule dropWhile_append2) (use assms(2) in auto)
    then show ?thesis unfolding strip_chars_def a e by simp
  qed
qed

lemma json_text_fenced:
  assumes "\<forall>c \<in> set w1. is_space c" "\<forall>c \<in> set w2. is_space c"
  shows "json_text_of (json_fence @ w1 @ p @ w2 @ fence) = py_strip p"
proof -
  let ?t = "json_fence @ w1 @ p @ w2 @ fence"
  have c: "py_contains json_fence ?t" by (rule contains_prefix) simp
  have f: "py_find ?t json_fence = 0" by (simp add: py_find_def find_prefix)
  have "py_rfind ?t fence = int (length (json_fence @ w1 @ p @ w2))"
    using rfind_suffix [of fence "json_fence @ w1 @ p @ w2" 0]
    by (simp add: py_rfind_def fence_def asc_def)
  moreover have "length json_fence = 7" by (simp add: json_fence_def asc_def)
  ultimately have "py_slice ?t (py_find ?t json_fence + 7) (py_rfind ?t fence) = w1 @ p @ w2"
    by (simp add: f py_slice_def)
  then show ?thesis using assms by (simp add: json_text_of_def c py_strip_def strip_pad)
qed

lemma json_text_plain: "\<not> py_contains fence t \<Longrightarrow> json_text_of t = py_strip t"
proof -
  assume n: "\<not> py_contains fence t"
  have "json_fence = fence @ asc ''json''" by (simp add: json_fence_def fence_def asc_def)
  with n have "\<not> py_contains json_fence t" using contains_weaken by metis
  with n show ?thesis by (simp add: json_text_of_def)
qed

subsection \<open>Evaluation of the parser on concrete texts\<close>

lemmas json_eval =
  asc_def json_loads_def skip_ws_def is_json_ws_def parse_number_def scan_int_part_def
  scan_frac_def scan_exp_def is_digit_def digits_val_def cons_str_def hex4_def hex_val_def
  unescape_def

lemmas parse_eval =
  parse_response_def json_text_of_def fence_def json_fence_def py_find_def py_rfind_def
  py_slice_def py_strip_def strip_chars_def is_space_def validate_skill_data_def
  required_keys_def Let_def

text \<open>
  C1. The claim: parse returns null whenever \<open>frontmatter\<close> is missing \<open>name\<close> or
  \<open>description\<close> (among the other conditions). The validator tests
  \<open>'name' not in frontmatter\<close> without testing that \<open>frontmatter\<close> is a mapping: for a
  \<open>frontmatter\<close> that is the list \<open>["name", "description"]\<close>, which has no key at all,
  the test is an element test and the document is returned; for a \<open>frontmatter\<close> that is
  a number the test raises \<open>TypeError\<close>, which \<open>_parse_response\<close> does not catch.
\<close>

theorem parse_response_frontmatter_not_a_mapping:
  \<open>parse_response
     (asc ''{"skill_md":{"frontmatter":["name","description"],"content":"c"},"references":[],"templates":[]}'')
   = Inr (Some (JObj
       [(asc ''skill_md'',
           JObj [(asc ''frontmatter'', JArr [JStr (asc ''name''), JStr (asc ''description'')]),
                 (asc ''content'', JStr (asc ''c''))]),
        (asc ''references'', JArr []),
        (asc ''templates'', JArr [])]))
   \<and> parse_response
     (asc ''{"skill_md":{"frontmatter":5,"content":"c"},"references":[],"templates":[]}'')
   = Inl TypeError\<close>
  by (simp add: json_eval parse_eval)

text \<open>
  What does hold for C1: a document is returned only if it is a mapping with the three
  top-level keys, \<open>skill_md\<close> is a mapping with \<open>frontmatter\<close> and \<open>content\<close>, the
  \<open>in\<close> tests for \<open>name\<close> and \<open>description\<close> succeed on \<open>frontmatter\<close> (key tests
  when it is a mapping), and \<open>references\<close> and \<open>templates\<close> are lists.
\<close>

lemma parse_response_returns_checked_document:
  assumes "parse_response t = Inr (Some d)"
  shows "\<exists>kvs sm fm c rs ts.
        d = JObj kvs \<and>
        map_of kvs (asc ''skill_md'') = Some (JObj sm) \<and>
        map_of sm (asc ''frontmatter'') = Some fm \<and>
        map_of sm (asc ''content'') = Some c \<and>
        py_in (asc ''name'') fm = Inr True \<and>
        py_in (asc ''description'') fm = Inr True \<and>
        map_of kvs (asc ''references'') = Some (JArr rs) \<and>
        map_of kvs (asc ''templates'') = Some (JArr ts)"
proof -
  from assms have v: "validate_skill_data d = Inr True"
    by (auto simp: parse_response_def split: option.splits sum.splits if_splits)
  then have "is_dict d" using validate_not_dict by blast
  then obtain kvs where d: "d = JObj kvs" by (cases d) auto
  with v validate_obj_D [of kvs] show ?thesis by blast
qed

text \<open>
  C2. The claim: every element of \<open>references\<close> and of \<open>templates\<close> is checked to have
  the \<open>{filename, content}\<close> shape, and a document with an element lacking a key is
  rejected. The validator only tests that the two values are lists: a document whose
  \<open>references\<close> holds an empty mapping and whose \<open>templates\<close> holds a number is returned.
\<close>

theorem parse_response_unchecked_elements:
  \<open>parse_response
     (asc ''{"skill_md":{"frontmatter":{"name":"x","description":"d"},"content":"c"},"references":[{}],"templates":[1]}'')
   = Inr (Some (JObj
       [(asc ''skill_md'',
           JObj [(asc ''frontmatter'',
                    JObj [(asc ''name'', JStr (asc ''x'')), (asc ''description'', JStr (asc ''d''))]),
                 (asc ''content'', JStr (asc ''c''))]),
        (asc ''references'', JArr [JObj []]),
        (asc ''templates'', JArr [JInt 1])]))\<close>
  by (simp add: json_eval parse_eval)

text \<open>
  C2, as the code has it: a returned document has a list under \<open>references\<close> and a list
  under \<open>templates\<close>, and the verdict does not depend on what the lists hold: the
  document still validates when the two lists are replaced by any other lists.
\<close>

theorem validator_checks_sequences_only:
  assumes "parse_response t = Inr (Some d)"
  shows "\<exists>kvs rs ts.
        d = JObj kvs \<and>
        map_of kvs (asc ''references'') = Some (JArr rs) \<and>
        map_of kvs (asc ''templates'') = Some (JArr ts) \<and>
        (\<forall>rs' ts'.
           validate_skill_data
             (JObj (dict_set (asc ''references'') (JArr rs')
                     (dict_set (asc ''templates'') (JArr ts') kvs))) = Inr True)"
proof -
  from parse_response_returns_checked_document [OF assms]
  obtain kvs sm fm c rs ts where d: "d = JObj kvs"
    and sm: "map_of kvs (asc ''skill_md'') = Some (JObj sm)"
    and fm: "map_of sm (asc ''frontmatter'') = Some fm"
    and c: "map_of sm (asc ''content'') = Some c"
    and n: "py_in (asc ''name'') fm = Inr True"
    and de: "py_in (asc ''description'') fm = Inr True"
    and rs: "map_of kvs (asc ''references'') = Some (JArr rs)"
    and ts: "map_of kvs (asc ''templates'') = Some (JArr ts)"
    by blast
  have ne: "asc ''skill_md'' \<noteq> asc ''references''" "asc ''skill_md'' \<noteq> asc ''templates''"
    "asc ''references'' \<noteq> asc ''templates''"
    by (simp_all add: asc_def)
  have "validate_skill_data
          (JObj (dict_set (asc ''references'') (JArr rs')
                  (dict_set (asc ''templates'') (JArr ts') kvs))) = Inr True" for rs' ts'
    by (rule validate_obj_I [OF _ fm c n de]) (simp_all add: map_of_dict_set sm ne ne [symmetric])
  with d rs ts show ?thesis by blast
qed

theorem validator_checks_sequences_only_witness:
  \<open>\<exists>kvs rs ts.
     JObj [(asc ''skill_md'',
              JObj [(asc ''frontmatter'',
                       JObj [(asc ''name'', JStr (asc ''x'')), (asc ''description'', JStr (asc ''d''))]),
                    (asc ''content'', JStr (asc ''c''))]),
           (asc ''references'', JArr [JObj [(asc ''content'', JStr (asc ''r''))]]),
           (asc ''templates'', JArr [])] = JObj kvs \<and>
     map_of kvs (asc ''references'') = Some (JArr rs) \<and>
     map_of kvs (asc ''templates'') = Some (JArr ts) \<and>
     (\<forall>rs' ts'.
        validate_skill_data
          (JObj (dict_set (asc ''references'') (JArr rs')
                  (dict_set (asc ''templates'') (JArr ts') kvs))) = Inr True)\<close>
proof -
  have h: \<open>parse_response
     (asc ''{"skill_md":{"frontmatter":{"name":"x","description":"d"},"content":"c"},"references":[{"content":"r"}],"templates":[]}'')
   = Inr (Some (JObj
       [(asc ''skill_md'',
           JObj [(asc ''frontmatter'',
                    JObj [(asc ''name'', JStr (asc ''x'')), (asc ''description'', JStr (asc ''d''))]),
                 (asc ''content'', JStr (asc ''c''))]),
        (asc ''references'', JArr [JObj [(asc ''content'', JStr (asc ''r''))]]),
        (asc ''templates'', JArr [])]))\<close>
    by (simp add: json_eval parse_eval)
  show ?thesis by (rule validator_checks_sequences_only [OF h])
qed

text \<open>
  C3. The claim: for every valid payload, parsing the payload inside one fenced json
  block gives the same document as parsing the bare payload. A valid payload whose
  \<open>content\<close> holds a fence marker parses inside the block, but parsed bare it is cut
  between its own first and last marker and the result is \<open>None\<close>.
\<close>

theorem fenced_payload_differs_from_bare:
  \<open>parse_response
     (asc ''```json\<newline>{"skill_md":{"frontmatter":{"name":"x","description":"d"},"content":"```"},"references":[],"templates":[]}\<newline>```'')
   = Inr (Some (JObj
       [(asc ''skill_md'',
           JObj [(asc ''frontmatter'',
                    JObj [(asc ''name'', JStr (asc ''x'')), (asc ''description'', JStr (asc ''d''))]),
                 (asc ''content'', JStr (asc ''```''))]),
        (asc ''references'', JArr []),
        (asc ''templates'', JArr [])]))
   \<and> parse_response
     (asc ''{"skill_md":{"frontmatter":{"name":"x","description":"d"},"content":"```"},"references":[],"templates":[]}'')
   = Inr None\<close>
  by (simp add: json_eval parse_eval)

text \<open>
  C3, as the code has it: for a payload that holds no fence marker, the text made of
  \<open>```json\<close>, white space, the payload, white space and \<open>```\<close> parses to exactly what the
  bare payload parses to; and a text without fence markers is parsed whole, stripped.
\<close>

theorem fenced_payload_same_as_bare:
  assumes "\<not> py_contains fence p"
    and "\<forall>c \<in> set w1. is_space c" and "\<forall>c \<in> set w2. is_space c"
  shows "parse_response (json_fence @ w1 @ p @ w2 @ fence) = parse_response p
       \<and> json_text_of p = py_strip p"
  using assms by (simp add: parse_response_def json_text_fenced json_text_plain)

theorem fenced_payload_same_as_bare_witness:
  \<open>parse_response
     (json_fence @ [10] @
      asc ''{"skill_md":{"frontmatter":{"name":"x","description":"d"},"content":"c"},"references":[],"templates":[]}''
      @ [10] @ fence)
   = parse_response
      (asc ''{"skill_md":{"frontmatter":{"name":"x","description":"d"},"content":"c"},"references":[],"templates":[]}'')
   \<and> json_text_of
      (asc ''{"skill_md":{"frontmatter":{"name":"x","description":"d"},"content":"c"},"references":[],"templates":[]}'')
   = py_strip
      (asc ''{"skill_md":{"frontmatter":{"name":"x","description":"d"},"content":"c"},"references":[],"templates":[]}'')\<close>
proof -
  have n: \<open>\<not> py_contains fence
     (asc ''{"skill_md":{"frontmatter":{"name":"x","description":"d"},"content":"c"},"references":[],"templates":[]}'')\<close>
    by (simp add: fence_def asc_def)
  have w: "\<forall>c \<in> set [10::nat]. is_space c" by (simp add: is_space_def)
  show ?thesis by (rule fenced_payload_same_as_bare [OF n w w])
qed

section \<open>Properties of the code samples\<close>

lemma contains_iff: "py_contains sub s \<longleftrightarrow> (\<exists>a b. s = a @ sub @ b)"
proof (induction s)
  case Nil then show ?case by auto
next
  case (Cons c cs)
  show ?case
  proof
    assume "py_contains sub (c # cs)"
    then consider "prefix sub (c # cs)" | "py_contains sub cs" by auto
    then show "\<exists>a b. c # cs = a @ sub @ b"
    proof cases
      case 1
      then obtain b where "c # cs = sub @ b" by (auto simp: prefix_def)
      then have "c # cs = [] @ sub @ b" by simp
      then show ?thesis by blast
    next
      case 2
      with Cons obtain a b where "cs = a @ sub @ b" by blast
      then have "c # cs = (c # a) @ sub @ b" by simp
      then show ?thesis by blast
    qed
  next
    assume "\<exists>a b. c # cs = a @ sub @ b"
    then obtain a b where e: "c # cs = a @ sub @ b" by blast
    show "py_contains sub (c # cs)"
    proof (cases a)
      case Nil
      with e have "prefix sub (c # cs)" by (simp add: prefix_def)
      then show ?thesis by simp
    next
      case (Cons x a')
      with e have "cs = a' @ sub @ b" by simp
      with Cons.IH show ?thesis by auto
    qed
  qed
qed

lemma lower_from_append:
  "lower_from u s i (xs @ ys) = lower_from u s i xs @ lower_from u s (i + length xs) ys"
  by (induction xs arbitrary: i) auto

lemma lower_from_ascii:
  "\<forall>c \<in> set m. c < 128 \<Longrightarrow> lower_from u s i m = map ascii_lower m"
  by (induction m arbitrary: i) auto

lemma ascii_lower_small: "ascii_lower c < 128 \<Longrightarrow> c < 128"
  by (auto simp: ascii_lower_def split: if_splits)

lemma lower_keeps_ascii_word:
  assumes w: "\<forall>c \<in> set w. c < 128"
    and c: "py_contains w (map ascii_lower y)"
  shows "py_contains w (py_lower u (x @ y))"
proof -
  from c obtain a b where "map ascii_lower y = a @ w @ b" by (auto simp: contains_iff)
  then obtain a' rest where y1: "y = a' @ rest" and r: "map ascii_lower rest = w @ b"
    by (metis map_eq_append_conv)
  from r obtain m b' where r2: "rest = m @ b'" and m: "map ascii_lower m = w"
    by (metis map_eq_append_conv)
  from y1 r2 have y: "y = a' @ m @ b'" by simp
  have "\<forall>c \<in> set m. c < 128"
  proof
    fix c assume "c \<in> set m"
    then have "ascii_lower c \<in> set w" using m by auto
    with w show "c < 128" by (auto intro: ascii_lower_small)
  qed
  then have "lower_from u (x @ y) i m = w" for i using m by (simp add: lower_from_ascii)
  then have "py_lower u (x @ y) =
      lower_from u (x @ y) 0 (x @ a') @ w @ lower_from u (x @ y) (length (x @ a') + length m) b'"
    unfolding py_lower_def y
    by (simp add: lower_from_append add.assoc del: append_assoc flip: append_assoc)
  then show ?thesis unfolding contains_iff by blast
qed

lemma join_with_append:
  "a \<noteq> [] \<Longrightarrow> b \<noteq> [] \<Longrightarrow> join_with sep (a @ b) = join_with sep a @ sep @ join_with sep b"
proof (induction sep a rule: join_with.induct)
  case (2 sep p)
  then show ?case by (cases b) auto
qed auto

lemma abs_str_ends_with_rel:
  "rel \<noteq> [] \<Longrightarrow> \<exists>x. abs_str (root @ rel) = x @ rel_str rel"
  by (cases "root = []") (auto simp: abs_str_def rel_str_def join_with_append)

lemma test_free_rel:
  assumes "\<not> py_contains (asc ''test'') (py_lower u (abs_str (root @ rel)))"
  shows "\<not> py_contains (asc ''test'') (map ascii_lower (rel_str rel))"
proof (cases "rel = []")
  case True
  then show ?thesis by (simp add: rel_str_def asc_def ascii_lower_def)
next
  case False
  then obtain x where x: "abs_str (root @ rel) = x @ rel_str rel"
    using abs_str_ends_with_rel by blast
  have "\<forall>c \<in> set (asc ''test''). c < 128" by (simp add: asc_def)
  then show ?thesis using assms lower_keeps_ascii_word [of "asc ''test''" "rel_str rel" u x]
    unfolding x by blast
qed

lemma hidden_mono: "\<not> hidden (a @ b) \<Longrightarrow> \<not> hidden b"
  by (auto simp: hidden_def)

lemma slice_len: "length (py_slice (s :: 'a list) 0 2000) \<le> 2000"
  by (simp add: py_slice_def Let_def)

lemma scan_files_inv:
  assumes "length samples < 5" and "\<forall>s \<in> set samples. sample_ok r s"
    and "set fs \<subseteq> set (entries r)"
  shows "length (scan_files u r ext fs samples) \<le> 5
       \<and> (\<forall>s \<in> set (scan_files u r ext fs samples). sample_ok r s)"
  using assms
proof (induction fs arbitrary: samples)
  case Nil
  then show ?case by simp
next
  case (Cons f fs)
  have rest: "length (scan_files u r ext fs samples) \<le> 5
       \<and> (\<forall>s \<in> set (scan_files u r ext fs samples). sample_ok r s)"
    using Cons by simp
  show ?case
  proof (cases "py_contains (asc ''test'') (py_lower u (abs_str (root_dirs r @ rel_parts f)))
      \<or> hidden (asc ''/'' # root_dirs r @ rel_parts f)")
    case True
    then show ?thesis using rest by auto
  next
    case skip: False
    show ?thesis
    proof (cases "st_size f")
      case None
      then show ?thesis using rest skip by simp
    next
      case (Some n)
      show ?thesis
      proof (cases "n > max_file_size \<or> n = 0")
        case True
        then show ?thesis using rest skip Some by simp
      next
        case size: False
        show ?thesis
        proof (cases "file_text f")
          case None
          then show ?thesis using rest skip Some size by simp
        next
          case (Some t)
          let ?s = "\<lparr> sample_file = rel_str (rel_parts f), language = drop 1 ext,
                      content = py_slice (take 5000 t) 0 2000 \<rparr>"
          have h: "\<not> hidden (rel_parts f)"
            using skip hidden_mono [of "asc ''/'' # root_dirs r" "rel_parts f"] by simp
          have "f \<in> set (entries r)" using Cons.prems(3) by simp
          then have ok: "sample_ok r ?s"
            using skip size \<open>st_size f = Some n\<close> h test_free_rel [of u "root_dirs r" "rel_parts f"]
            by (auto simp: sample_ok_def slice_len max_file_size_def)
          have all: "\<forall>s \<in> set (samples @ [?s]). sample_ok r s"
            using ok Cons.prems(2) by simp
          show ?thesis
          proof (cases "length (samples @ [?s]) \<ge> max_samples")
            case True
            then show ?thesis
              using skip \<open>st_size f = Some n\<close> size Some all Cons.prems(1)
              by (simp add: Let_def max_samples_def)
          next
            case False
            then have "length (samples @ [?s]) < 5" by (simp add: max_samples_def)
            from Cons.IH [OF this all] Cons.prems(3)
            show ?thesis
              using skip \<open>st_size f = Some n\<close> size Some False
              by (simp add: Let_def)
          qed
        qed
      qed
    qed
  qed
qed

lemma scan_exts_inv:
  assumes "length samples < 5" and "\<forall>s \<in> set samples. sample_ok r s"
  shows "length (scan_exts u r exts samples) \<le> 5
       \<and> (\<forall>s \<in> set (scan_exts u r exts samples). sample_ok r s)"
  using assms
proof (induction exts arbitrary: samples)
  case Nil
  then show ?case by simp
next
  case (Cons ext exts)
  let ?fs = "take (max_samples * 2) (rglob r ext)"
  have "set ?fs \<subseteq> set (entries r)"
    by (auto simp: rglob_def dest: in_set_takeD)
  from scan_files_inv [OF Cons.prems(1) Cons.prems(2) this]
  have inner: "length (scan_files u r ext ?fs samples) \<le> 5
       \<and> (\<forall>s \<in> set (scan_files u r ext ?fs samples). sample_ok r s)" .
  show ?case
  proof (cases "walk_raises r ext")
    case True
    then show ?thesis using Cons.prems by simp
  next
    case False
    show ?thesis
    proof (cases "length (scan_files u r ext ?fs samples) \<ge> max_samples")
      case True
      then show ?thesis using inner False by (simp add: Let_def)
    next
      case nf: False
      then have "length (scan_files u r ext ?fs samples) < 5" by (simp add: max_samples_def)
      from Cons.IH [OF this] inner show ?thesis using False nf by (simp add: Let_def)
    qed
  qed
qed

text \<open>
  C7. For every repository tree the extraction returns at most five samples, and every
  sample has a path without a case-insensitive \<open>test\<close> substring, a content of at most
  2000 code points, and comes from an entry of the tree whose relative path has no
  hidden segment and whose size is between 1 byte and 100 KB.
\<close>

theorem extract_code_samples_bounded:
  "length (extract_code_samples u r) \<le> 5
   \<and> (\<forall>s \<in> set (extract_code_samples u r). sample_ok r s)"
  unfolding extract_code_samples_def by (rule scan_exts_inv) simp_all

lemmas samples_eval =
  extract_code_samples_def code_extensions_def rglob_def suffix_to_prefix hidden_def abs_str_def
  rel_str_def py_lower_def ascii_lower_def max_samples_def max_file_size_def py_slice_def
  asc_def Let_def

theorem extract_code_samples_bounded_witness:
  "extract_code_samples (\<lambda>s i. [s ! i]) example_repo =
     [\<lparr> sample_file = asc ''src/app.py'', language = asc ''py'', content = asc ''print(1)'' \<rparr>]
   \<and> sample_ok example_repo
     \<lparr> sample_file = asc ''src/app.py'', language = asc ''py'', content = asc ''print(1)'' \<rparr>"
proof -
  have e: "extract_code_samples (\<lambda>s i. [s ! i]) example_repo =
     [\<lparr> sample_file = asc ''src/app.py'', language = asc ''py'', content = asc ''print(1)'' \<rparr>]"
    by (simp add: example_repo_def samples_eval)
  from extract_code_samples_bounded [of "\<lambda>s i. [s ! i]" example_repo]
  show ?thesis unfolding e by simp
qed

section \<open>Properties of the workflow\<close>

text \<open>
  C5. The claim: on every exit path of one repository's processing, a builder fault and
  an unexpected exception included, cleanup is invoked exactly once on the clone. The
  workflow calls cleanup before the two early returns that follow a clone and on the
  success path, but the exception handler does not: in a run where the clone succeeds
  and \<open>build_skill\<close> raises, the handler is reached with no call of cleanup.
\<close>

theorem workflow_builder_fault_leaves_clone:
  "generate_skill_workflow builder_fault =
     ([CreateGenerator, ValidateUrl, FetchMetadata, Clone, Analyze, Generate, Build], ExceptHandler)
   \<and> cloned builder_fault \<and> cleanups builder_fault = 0"
  by (simp add: generate_skill_workflow_def builder_fault_def cloned_def cleanups_def)

text \<open>
  What does hold for C5: after a successful clone, a run that does not end in the
  exception handler calls cleanup exactly once; no run calls it twice; a run that
  raises before the success path reaches cleanup calls it not at all.
\<close>

lemma workflow_cleanup_without_exception:
  assumes "cloned r" and "snd (generate_skill_workflow r) \<noteq> ExceptHandler"
  shows "cleanups r = 1"
  using assms
  by (auto simp: generate_skill_workflow_def cloned_def cleanups_def
      split: outcome.splits if_splits)

lemma workflow_cleanup_at_most_once: "cleanups r \<le> 1"
  by (auto simp: generate_skill_workflow_def cleanups_def split: outcome.splits if_splits)

lemma workflow_exception_then_no_cleanup:
  assumes "cloned r" and "snd (generate_skill_workflow r) = ExceptHandler"
    and "package_skill_r r = Raised \<or> build_skill_r r = Raised \<or> validate_skill_r r = Raised
      \<or> analyze_repository_r r = Raised \<or> generate_skill_r r = Raised"
  shows "cleanups r = 0"
  using assms
  by (auto simp: generate_skill_workflow_def cloned_def cleanups_def
      split: outcome.splits if_splits)

section \<open>Properties of URL validation and extraction\<close>

lemmas url_eval =
  urlparse_def urlsplit_def splitparams_def splitnetloc_def narrow_def split_first_def
  py_find_def py_find_at_def py_rfind_def py_slice_def py_from_def remove_char_def
  is_ascii_alpha_def is_scheme_char_def is_digit_def ascii_lower_def uses_params_def
  validate_github_url_def extract_repo_info_def path_parts_of_def strip_chars_def
  py_replace_def re_match_plus_def is_owner_char_def is_repo_char_def asc_def Let_def

lemma set_py_slice: "set (py_slice s a b) \<subseteq> set s"
  unfolding py_slice_def Let_def
  by (meson set_take_subset set_drop_subset subset_trans)

lemma set_py_from: "set (py_from s a) \<subseteq> set s"
  by (simp add: py_from_def set_py_slice)

lemma set_strip_chars: "set (strip_chars P s) \<subseteq> set s"
proof -
  have "set (dropWhile P (rev (dropWhile P s))) \<subseteq> set (rev (dropWhile P s))"
    by (auto dest: set_dropWhileD)
  also have "\<dots> \<subseteq> set s" by (auto dest: set_dropWhileD)
  finally show ?thesis by (simp add: strip_chars_def)
qed

lemma split_on_not_Nil: "split_on sep s \<noteq> []"
  by (induction s) (auto split: list.splits)

lemma set_split_on: "x \<in> set (split_on sep s) \<Longrightarrow> set x \<subseteq> set s"
proof (induction s arbitrary: x)
  case Nil
  then show ?case by simp
next
  case (Cons c cs)
  obtain p ps where ps: "split_on sep cs = p # ps"
    using split_on_not_Nil [of sep cs] by (cases "split_on sep cs") auto
  have "set y \<subseteq> set cs" if "y \<in> set (p # ps)" for y
    using Cons.IH that ps by simp
  then have a: "set p \<subseteq> set cs" and b: "\<forall>y \<in> set ps. set y \<subseteq> set cs" by auto
  from Cons.prems ps consider "x = []" | "x = p" | "x = c # p" | "x \<in> set ps"
    by (auto split: if_splits)
  then show ?case using a b by cases auto
qed

lemma set_replace_ne: "set (replace_ne old [] s) \<subseteq> set s"
proof (induction old "[] :: pystr" s rule: replace_ne.induct)
  case (1 old)
  then show ?case by simp
next
  case (2 old c cs)
  show ?case
  proof (cases "old \<noteq> [] \<and> prefix old (c # cs)")
    case True
    then have "set (replace_ne old [] (drop (length old) (c # cs))) \<subseteq> set (drop (length old) (c # cs))"
      using 2 by simp
    also have "\<dots> \<subseteq> set (c # cs)" by (rule set_drop_subset)
    finally show ?thesis using True by simp
  next
    case False
    then show ?thesis using 2 by auto
  qed
qed

lemma replace_ne_keeps:
  "x \<in> set s \<Longrightarrow> x \<notin> set old \<Longrightarrow> x \<in> set (replace_ne old new s)"
proof (induction old new s rule: replace_ne.induct)
  case (1 old new)
  then show ?case by simp
next
  case (2 old new c cs)
  show ?case
  proof (cases "old \<noteq> [] \<and> prefix old (c # cs)")
    case True
    then obtain r where r: "c # cs = old @ r" by (auto simp: prefix_def)
    then have d: "drop (length old) (c # cs) = r" by (metis append_eq_conv_conj)
    from r "2.prems" have "x \<in> set r" by (metis Un_iff set_append)
    with 2 True d show ?thesis by simp
  next
    case False
    then show ?thesis using 2 by auto
  qed
qed

lemma replace_ne_absent: "\<not> py_contains old s \<Longrightarrow> replace_ne old new s = s"
  by (induction old new s rule: replace_ne.induct) auto

lemma re_match_plus_full:
  "10 \<notin> set s \<Longrightarrow> re_match_plus P s \<longleftrightarrow> s \<noteq> [] \<and> list_all P s"
proof
  assume n: "10 \<notin> set s" and m: "re_match_plus P s"
  have "dropWhile P s \<noteq> [10]"
  proof
    assume "dropWhile P s = [10]"
    then have "10 \<in> set (dropWhile P s)" by simp
    then have "10 \<in> set s" by (rule set_dropWhileD)
    with n show False by simp
  qed
  with m have "dropWhile P s = []" and "takeWhile P s \<noteq> []" by (auto simp: re_match_plus_def)
  then show "s \<noteq> [] \<and> list_all P s" by (auto simp: list_all_iff dropWhile_eq_Nil_conv)
next
  assume "10 \<notin> set s" and "s \<noteq> [] \<and> list_all P s"
  then show "re_match_plus P s"
    by (auto simp: re_match_plus_def list_all_iff takeWhile_eq_all_conv [THEN iffD2])
qed

lemma git_chars: "set (asc ''.git'') = {46, 103, 105, 116}"
  by (auto simp: asc_def)

lemma repo_name_rejected:
  assumes n: "10 \<notin> set b" and bad: "\<not> repo_ok (strip_git_suffix b)"
  shows "\<not> re_match_plus is_repo_char (py_replace b (asc ''.git'') [])"
proof
  let ?r = "py_replace b (asc ''.git'') []"
  assume m: "re_match_plus is_repo_char ?r"
  have r: "?r = replace_ne (asc ''.git'') [] b" by (simp add: py_replace_def asc_def)
  have "set ?r \<subseteq> set b" unfolding r by (rule set_replace_ne)
  with n have "10 \<notin> set ?r" by auto
  with m have ne: "?r \<noteq> []" and all: "list_all is_repo_char ?r"
    by (simp_all add: re_match_plus_full)
  from bad consider "strip_git_suffix b = []"
    | c where "c \<in> set (strip_git_suffix b)" "\<not> is_repo_char c"
    by (auto simp: repo_ok_def list_all_iff)
  then show False
  proof cases
    case 1
    have "b = [] \<or> b = asc ''.git''"
    proof (cases "suffix (asc ''.git'') b")
      case True
      then obtain x where x: "b = x @ asc ''.git''" by (auto simp: suffix_def)
      with 1 True have "x = []" by (simp add: strip_git_suffix_def asc_def)
      with x show ?thesis by simp
    next
      case False
      with 1 show ?thesis by (simp add: strip_git_suffix_def)
    qed
    then have "?r = []" by (auto simp: py_replace_def asc_def)
    with ne show False by simp
  next
    case 2
    have "set (strip_git_suffix b) \<subseteq> set b"
      by (auto simp: strip_git_suffix_def dest: in_set_takeD)
    with 2 have cb: "c \<in> set b" by auto
    have "c \<notin> set (asc ''.git'')"
      using 2(2) unfolding git_chars by (auto simp: is_repo_char_def is_owner_char_def)
    with cb have "c \<in> set ?r" unfolding r by (rule replace_ne_keeps)
    with all 2(2) show False by (auto simp: list_all_iff)
  qed
qed

lemma owner_rejected:
  assumes "10 \<notin> set a" and "\<not> owner_ok a"
  shows "\<not> re_match_plus is_owner_char a"
  using assms by (simp add: re_match_plus_full owner_ok_def)

lemma split_first_fst: "set (fst (split_first u c)) \<subseteq> set u"
  by (simp add: split_first_def Let_def set_py_slice)

lemma splitnetloc_snd: "set (snd (splitnetloc u k)) \<subseteq> set u"
  by (simp add: splitnetloc_def Let_def set_py_from)

lemma splitparams_fst: "set (fst (splitparams u)) \<subseteq> set u"
  by (auto simp: splitparams_def Let_def dest: set_py_slice [THEN subsetD])

lemma cleaned_no_newline:
  "10 \<notin> set (remove_char 10 (remove_char 13 (remove_char 9 (dropWhile (\<lambda>c. c \<le> 32) url))))"
  by (simp add: remove_char_def)

lemma urlsplit_path:
  assumes "urlsplit L url = Inr (sch, nl, p, q, f)"
  shows "10 \<notin> set p"
proof -
  define url1 where
    "url1 = remove_char 10 (remove_char 13 (remove_char 9 (dropWhile (\<lambda>c. c \<le> 32) url)))"
  define i where "i = py_find url1 (asc '':'')"
  define su where "su =
     (if i > 0 \<and> is_ascii_alpha (hd url1) \<and> list_all is_scheme_char (py_slice url1 0 i)
      then (map ascii_lower (py_slice url1 0 i), py_from url1 (i + 1))
      else ([], url1))"
  define nu where "nu =
     (if py_slice (snd su) 0 2 = asc ''//'' then splitnetloc (snd su) 2 else ([], snd su))"
  define fu where "fu =
     (if 35 \<in> set (snd nu) then split_first (snd nu) 35 else (snd nu, []))"
  define qu where "qu =
     (if 63 \<in> set (fst fu) then split_first (fst fu) 63 else (fst fu, []))"
  have n1: "10 \<notin> set url1" unfolding url1_def by (rule cleaned_no_newline)
  have "set (snd su) \<subseteq> set url1"
    unfolding su_def using set_py_from [of url1 "i + 1"] by auto
  moreover have "set (snd nu) \<subseteq> set (snd su)"
    unfolding nu_def using splitnetloc_snd [of "snd su" 2] by auto
  moreover have "set (fst fu) \<subseteq> set (snd nu)"
    unfolding fu_def using split_first_fst [of "snd nu" 35] by auto
  moreover have "set (fst qu) \<subseteq> set (fst fu)"
    unfolding qu_def using split_first_fst [of "fst fu" 63] by auto
  ultimately have "set (fst qu) \<subseteq> set url1" by blast
  moreover have "p = fst qu"
    using assms
    unfolding urlsplit_def Let_def split_def
      url1_def [symmetric] i_def [symmetric] su_def [symmetric] nu_def [symmetric]
      fu_def [symmetric] qu_def [symmetric]
    by (simp split: if_splits)
  ultimately show ?thesis using n1 by auto
qed

lemma urlparse_path:
  assumes "urlparse L url = Inr parsed"
  shows "10 \<notin> set (path parsed)"
proof -
  from assms obtain sch nl p q f where s: "urlsplit L url = Inr (sch, nl, p, q, f)"
    by (auto simp: urlparse_def split: sum.splits)
  then have n: "10 \<notin> set p" by (rule urlsplit_path)
  from assms s have "path parsed = p \<or> path parsed = fst (splitparams p)"
    by (auto simp: urlparse_def Let_def split_def split: if_splits)
  then show ?thesis using n splitparams_fst [of p] by auto
qed

lemma path_parts_no_newline:
  assumes "10 \<notin> set p" and "x \<in> set (path_parts_of p)"
  shows "10 \<notin> set x"
proof -
  from assms(2) have "set x \<subseteq> set (strip_chars (\<lambda>c. c = 47) p)"
    unfolding path_parts_of_def by (rule set_split_on)
  with set_strip_chars [of "\<lambda>c. c = 47" p] assms(1) show ?thesis by blast
qed

lemma path_parts_not_Nil: "path_parts_of p \<noteq> []"
  by (simp add: path_parts_of_def split_on_not_Nil)


lemma py_replace_absent: "\<not> py_contains (asc ''.git'') b \<Longrightarrow> py_replace b (asc ''.git'') [] = b"
  by (simp add: py_replace_def replace_ne_absent asc_def)


lemma split_on_absent: "sep \<notin> set s \<Longrightarrow> split_on sep s = [s]"
  by (induction s) auto

text \<open>
  C6. The claim: \<open>validateLocator\<close> fails when the input is empty, longer than 500
  characters, has a scheme other than https, a host other than \<open>github.com\<close>, or an
  owner or repo segment outside its pattern. The code also admits the host
  \<open>www.github.com\<close>, named in its list of hosts.
\<close>

theorem validate_github_url_accepts_www:
  "validate_github_url lenient (asc ''https://www.github.com/owner/repo'') = (True, [])"
  by (simp add: url_eval)

text \<open>
  On the result of \<open>urlparse\<close>: validation fails when the input is empty, longer than
  500 code points, is refused by \<open>urlparse\<close>, or when the parse result has a scheme
  other than https, a netloc other than \<open>github.com\<close> and \<open>www.github.com\<close>, fewer than
  two path segments, a first segment that is not a full match of \<open>[A-Za-z0-9_-]+\<close>, or a
  second segment that, with a \<open>.git\<close> suffix stripped, is not a full match of
  \<open>[A-Za-z0-9_.-]+\<close>.
\<close>

lemma validate_github_url_rejects_parsed:
  assumes "url = [] \<or> length url > 500
     \<or> (\<exists>e. urlparse L url = Inl e)
     \<or> (\<exists>parsed. urlparse L url = Inr parsed \<and>
          (scheme parsed \<noteq> asc ''https''
           \<or> netloc parsed \<notin> {asc ''github.com'', asc ''www.github.com''}
           \<or> length (path_parts_of (path parsed)) < 2
           \<or> \<not> owner_ok (path_parts_of (path parsed) ! 0)
           \<or> \<not> repo_ok (strip_git_suffix (path_parts_of (path parsed) ! 1))))"
  shows "fst (validate_github_url L url) = False"
proof (cases "url = [] \<or> length url > 500 \<or> (\<exists>e. urlparse L url = Inl e)")
  case True
  then show ?thesis by (auto simp: validate_github_url_def)
next
  case False
  with assms obtain parsed where p: "urlparse L url = Inr parsed"
    and bad: "scheme parsed \<noteq> asc ''https''
           \<or> netloc parsed \<notin> {asc ''github.com'', asc ''www.github.com''}
           \<or> length (path_parts_of (path parsed)) < 2
           \<or> \<not> owner_ok (path_parts_of (path parsed) ! 0)
           \<or> \<not> repo_ok (strip_git_suffix (path_parts_of (path parsed) ! 1))"
    by blast
  let ?parts = "path_parts_of (path parsed)"
  have n: "10 \<notin> set (path parsed)" using p by (rule urlparse_path)
  show ?thesis
  proof (cases "scheme parsed \<noteq> asc ''https''
           \<or> netloc parsed \<notin> {asc ''github.com'', asc ''www.github.com''}
           \<or> length ?parts < 2")
    case True
    then show ?thesis using False p by (auto simp: validate_github_url_def Let_def)
  next
    case ok: False
    then have len: "2 \<le> length ?parts" by simp
    then have "?parts ! 0 \<in> set ?parts" "?parts ! 1 \<in> set ?parts"
      by (auto intro!: nth_mem)
    then have n0: "10 \<notin> set (?parts ! 0)" and n1: "10 \<notin> set (?parts ! 1)"
      using n path_parts_no_newline by blast+
    from bad ok consider "\<not> owner_ok (?parts ! 0)" | "\<not> repo_ok (strip_git_suffix (?parts ! 1))"
      by blast
    then show ?thesis
    proof cases
      case 1
      then have "\<not> re_match_plus is_owner_char (?parts ! 0)" using n0 owner_rejected by blast
      then show ?thesis using False p ok by (simp add: validate_github_url_def Let_def)
    next
      case 2
      then have "\<not> re_match_plus is_repo_char (py_replace (?parts ! 1) (asc ''.git'') [])"
        using n1 repo_name_rejected by blast
      then show ?thesis using False p ok by (simp add: validate_github_url_def Let_def)
    qed
  qed
qed

lemma validate_github_url_rejects_parsed_at_http:
  "fst (validate_github_url lenient (asc ''http://github.com/owner/repo'')) = False"
proof -
  have "urlparse lenient (asc ''http://github.com/owner/repo'') =
      Inr \<lparr> scheme = asc ''http'', netloc = asc ''github.com'', path = asc ''/owner/repo'',
            params = [], query = [], fragment = [] \<rparr>"
    by (simp add: url_eval)
  then have "\<exists>parsed. urlparse lenient (asc ''http://github.com/owner/repo'') = Inr parsed \<and>
          (scheme parsed \<noteq> asc ''https''
           \<or> netloc parsed \<notin> {asc ''github.com'', asc ''www.github.com''}
           \<or> length (path_parts_of (path parsed)) < 2
           \<or> \<not> owner_ok (path_parts_of (path parsed) ! 0)
           \<or> \<not> repo_ok (strip_git_suffix (path_parts_of (path parsed) ! 1)))"
    by (simp add: asc_def)
  then show ?thesis by (intro validate_github_url_rejects_parsed) blast
qed

lemma urlsplit_stages:
  assumes "urlsplit L url = Inr (sch, nl, p, q, f)"
  shows "sch = fst (scheme_split (cleaned url))"
    and "nl = fst (netloc_split (snd (scheme_split (cleaned url))))"
    and "p = path_split (snd (netloc_split (snd (scheme_split (cleaned url)))))"
  using assms
  unfolding urlsplit_def Let_def split_def
    cleaned_def [symmetric] scheme_split_def [symmetric] netloc_split_def [symmetric]
    path_split_def
  by (simp_all split: if_splits)

lemma urlparse_stages:
  assumes "urlparse L url = Inr parsed"
  shows "scheme parsed = fst (scheme_split (cleaned url))"
    and "netloc parsed = fst (netloc_split (snd (scheme_split (cleaned url))))"
    and "59 \<notin> set (path_split (snd (netloc_split (snd (scheme_split (cleaned url)))))) \<Longrightarrow>
         path parsed = path_split (snd (netloc_split (snd (scheme_split (cleaned url)))))"
proof -
  from assms obtain sch nl p q f where s: "urlsplit L url = Inr (sch, nl, p, q, f)"
    by (auto simp: urlparse_def split: sum.splits)
  note st = urlsplit_stages [OF s]
  from assms s show "scheme parsed = fst (scheme_split (cleaned url))"
    by (auto simp: urlparse_def Let_def split_def st(1) [symmetric])
  from assms s show "netloc parsed = fst (netloc_split (snd (scheme_split (cleaned url))))"
    by (auto simp: urlparse_def Let_def split_def st(2) [symmetric])
  assume "59 \<notin> set (path_split (snd (netloc_split (snd (scheme_split (cleaned url))))))"
  then have "59 \<notin> set p" by (simp add: st(3))
  with assms s show "path parsed = path_split (snd (netloc_split (snd (scheme_split (cleaned url)))))"
    by (auto simp: urlparse_def Let_def st(3) [symmetric])
qed

lemma take_takeWhile: "take (length (takeWhile P xs)) xs = takeWhile P xs"
  by (rule takeWhile_eq_take [symmetric])

lemma drop_takeWhile: "drop (length (takeWhile P xs)) xs = dropWhile P xs"
  by (rule dropWhile_eq_drop [symmetric])

lemma find_single:
  "find_from [c] s i = (if c \<in> set s then int (i + length (takeWhile (\<lambda>x. x \<noteq> c) s)) else - 1)"
  by (induction s arbitrary: i) auto

lemma py_slice_take: "py_slice s 0 (int n) = take n s"
  by (cases "n \<le> length s") (simp_all add: py_slice_def Let_def min_def)

lemma py_slice_mid: "a \<le> length s \<Longrightarrow> py_slice s (int a) (int (a + n)) = take n (drop a s)"
  by (cases "a + n \<le> length s") (simp_all add: py_slice_def Let_def min_def)

lemma py_from_drop: "py_from s (int n) = drop n s"
  by (cases "n \<le> length s") (simp_all add: py_from_def py_slice_def Let_def min_def)

lemma take_two_prefix: "take 2 t = asc ''//'' \<longleftrightarrow> prefix (asc ''//'') t"
proof (cases t)
  case Nil
  then show ?thesis by (simp add: asc_def)
next
  case (Cons a r)
  then show ?thesis by (cases r) (auto simp: asc_def)
qed

lemma cleaned_id: "clean_text url \<Longrightarrow> cleaned url = url"
proof -
  assume c: "clean_text url"
  then have "dropWhile (\<lambda>c. c \<le> 32) url = url"
    by (cases url) (auto simp: clean_text_def)
  moreover have "filter (\<lambda>x. x \<noteq> k) url = url" if "k \<notin> set url" for k
    using that by (induction url) auto
  ultimately show ?thesis using c by (simp add: cleaned_def remove_char_def clean_text_def)
qed

lemma scheme_split_text:
  "scheme_split url = ([], url)
   \<or> scheme_split url = (map ascii_lower (text_scheme url), text_rest url)"
proof (cases "py_find url (asc '':'') > 0 \<and> is_ascii_alpha (hd url) \<and>
         list_all is_scheme_char (py_slice url 0 (py_find url (asc '':'')))")
  case False
  have "scheme_split url = ([], url)" unfolding scheme_split_def by (rule if_not_P) (rule False)
  then show ?thesis by simp
next
  case True
  let ?k = "length (takeWhile (\<lambda>x. x \<noteq> 58) url)"
  have a: "asc '':'' = [58]" by (simp add: asc_def)
  from True have "58 \<in> set url" by (auto simp: py_find_def a find_single split: if_splits)
  then have i: "py_find url (asc '':'') = int ?k" by (simp add: py_find_def a find_single)
  have t: "take ?k url = takeWhile (\<lambda>x. x \<noteq> 58) url" by (rule take_takeWhile)
  have "py_find url (asc '':'') + 1 = int (Suc ?k)" by (simp add: i)
  then have "py_from url (py_find url (asc '':'') + 1) = drop (Suc ?k) url"
    by (simp only: py_from_drop)
  then have "scheme_split url = (map ascii_lower (text_scheme url), text_rest url)"
    using True by (simp add: scheme_split_def i py_slice_take t text_scheme_def text_rest_def)
  then show ?thesis by simp
qed

lemma takeWhile_absent: "c \<notin> set u \<Longrightarrow> takeWhile (\<lambda>x. x \<noteq> c) u = u"
  by (induction u) auto

lemma length_takeWhile_conj:
  "length (takeWhile (\<lambda>x. P x \<and> Q x) t) = min (length (takeWhile P t)) (length (takeWhile Q t))"
  by (induction t) auto

lemma narrow_min:
  assumes "2 \<le> length url" and "d \<le> int (length url)"
  shows "narrow url 2 d c = min d (int (2 + length (takeWhile (\<lambda>x. x \<noteq> c) (drop 2 url))))"
proof (cases "c \<in> set (drop 2 url)")
  case True
  with assms show ?thesis by (simp add: narrow_def py_find_at_def find_single Let_def)
next
  case False
  then have t: "takeWhile (\<lambda>x. x \<noteq> c) (drop 2 url) = drop 2 url" by (rule takeWhile_absent)
  from assms have m: "min d (int (2 + length (drop 2 url))) = d" by simp
  from False assms have "narrow url 2 d c = d"
    by (simp add: narrow_def py_find_at_def find_single Let_def)
  with m show ?thesis by (simp only: t)
qed

lemma splitnetloc_text:
  assumes "2 \<le> length url"
  shows "splitnetloc url 2 = (takeWhile not_delim (drop 2 url), dropWhile not_delim (drop 2 url))"
proof -
  let ?t = "drop 2 url"
  let ?l = "\<lambda>c. length (takeWhile (\<lambda>x. x \<noteq> c) ?t)"
  let ?k = "length (takeWhile not_delim ?t)"
  have le: "?l c \<le> length ?t" for c by (rule length_takeWhile_le)
  have s: "asc ''/?#'' = [47, 63, 35]" by (simp add: asc_def)
  have hm: "min (int (2 + m)) (int (2 + l)) = int (2 + min m l)" for m l :: nat
    by (simp add: min_def)
  have bd: "int (2 + m) \<le> int (length url)" if "m \<le> length ?t" for m
    using that assms by simp
  have d1: "narrow url 2 (int (length url)) 47 = int (2 + ?l 47)"
    unfolding narrow_min [OF assms order_refl] using bd [OF le [of 47]] by (rule min.absorb2)
  have "narrow url 2 (int (2 + ?l 47)) 63 = min (int (2 + ?l 47)) (int (2 + ?l 63))"
    by (rule narrow_min [OF assms bd [OF le]])
  then have d2: "narrow url 2 (int (2 + ?l 47)) 63 = int (2 + min (?l 47) (?l 63))"
    unfolding hm .
  have "min (?l 47) (?l 63) \<le> length ?t" using le [of 47] by (simp add: min.coboundedI1)
  then have "narrow url 2 (int (2 + min (?l 47) (?l 63))) 35
      = min (int (2 + min (?l 47) (?l 63))) (int (2 + ?l 35))"
    by (intro narrow_min [OF assms bd])
  then have d3: "narrow url 2 (int (2 + min (?l 47) (?l 63))) 35
      = int (2 + min (min (?l 47) (?l 63)) (?l 35))"
    unfolding hm .
  have nd: "not_delim = (\<lambda>x. (x \<noteq> 47 \<and> x \<noteq> 63) \<and> x \<noteq> 35)"
    by (auto simp: not_delim_def fun_eq_iff)
  have k: "?k = min (min (?l 47) (?l 63)) (?l 35)"
    unfolding nd by (simp add: length_takeWhile_conj)
  have delim: "foldl (narrow url 2) (int (length url)) (asc ''/?#'') = int (2 + ?k)"
    unfolding s by (simp only: foldl.simps d1 d2 d3 k)
  have kk: "?k \<le> length ?t" by (rule length_takeWhile_le)
  have a: "py_slice url (int 2) (int (2 + ?k)) = take ?k ?t"
    using assms by (rule py_slice_mid)
  have b: "py_from url (int (2 + ?k)) = drop ?k ?t"
    by (simp only: py_from_drop drop_drop add.commute)
  have "splitnetloc url 2 = (take ?k ?t, drop ?k ?t)"
    unfolding splitnetloc_def Let_def delim a b ..
  then show ?thesis by (simp only: take_takeWhile drop_takeWhile)
qed

lemma netloc_split_text:
  "netloc_split t =
     (if prefix (asc ''//'') t
      then (takeWhile not_delim (drop 2 t), dropWhile not_delim (drop 2 t)) else ([], t))"
proof (cases "prefix (asc ''//'') t")
  case True
  then have "2 \<le> length t" by (auto simp: prefix_def asc_def)
  with True show ?thesis
    using py_slice_take [of t 2] by (simp add: netloc_split_def take_two_prefix splitnetloc_text)
next
  case False
  then show ?thesis
    using py_slice_take [of t 2] by (simp add: netloc_split_def take_two_prefix)
qed

lemma split_first_text:
  "c \<in> set u \<Longrightarrow> fst (split_first u c) = takeWhile (\<lambda>x. x \<noteq> c) u"
  by (simp add: split_first_def Let_def py_find_def find_single py_slice_take take_takeWhile)

lemma takeWhile_twice:
  "takeWhile P (takeWhile Q t) = takeWhile (\<lambda>x. P x \<and> Q x) t"
  by (induction t) auto

lemma path_split_text: "path_split u = takeWhile (\<lambda>c. c \<noteq> 63 \<and> c \<noteq> 35) u"
proof -
  have f: "fst (if c \<in> set v then split_first v c else (v, [])) = takeWhile (\<lambda>x. x \<noteq> c) v"
    for c v
    by (simp add: split_first_text takeWhile_absent)
  have "path_split u = takeWhile (\<lambda>x. x \<noteq> 63) (takeWhile (\<lambda>x. x \<noteq> 35) u)"
    unfolding path_split_def f ..
  then show ?thesis by (simp add: takeWhile_twice)
qed

lemma urlparse_text:
  assumes c: "clean_text url" and p: "urlparse L url = Inr parsed"
  shows "scheme parsed = []
       \<or> (scheme parsed = map ascii_lower (text_scheme url) \<and>
          netloc parsed = text_host url \<and> path parsed = text_path url)"
proof -
  have cl: "cleaned url = url" using c by (rule cleaned_id)
  note st = urlparse_stages [OF p, unfolded cl]
  from scheme_split_text [of url] show ?thesis
  proof
    assume "scheme_split url = ([], url)"
    then show ?thesis using st(1) by simp
  next
    assume s: "scheme_split url = (map ascii_lower (text_scheme url), text_rest url)"
    have n: "netloc parsed = text_host url"
      using st(2) by (simp add: s netloc_split_text text_host_def)
    have ps: "path_split (snd (netloc_split (snd (scheme_split url)))) = text_path url"
      by (simp add: s netloc_split_text path_split_text text_path_def)
    have "set (text_path url) \<subseteq> set url"
      by (auto simp: text_path_def text_rest_def
          dest!: set_takeWhileD set_dropWhileD in_set_dropD split: if_splits)
    with c have "59 \<notin> set (text_path url)" by (auto simp: clean_text_def)
    with st(3) ps have "path parsed = text_path url" by simp
    with n st(1) s show ?thesis by simp
  qed
qed

text \<open>
  C6, as the code has it: validation fails for every input that is empty or longer than
  500 code points; and for every input that holds no tab, carriage return, line feed or
  \<open>;\<close> and does not begin with a control character or a space, it fails when the text
  before the first \<open>:\<close> is not \<open>https\<close> (in any letter case), when the host, the text
  between the \<open>//\<close> after that \<open>:\<close> and the next \<open>/\<close>, \<open>?\<close> or \<open>#\<close>, is other than
  \<open>github.com\<close> and \<open>www.github.com\<close>, when the path has fewer than two segments, when
  the first segment is not in \<open>[A-Za-z0-9_-]+\<close>, or when the second, with a \<open>.git\<close>
  suffix stripped, is not in \<open>[A-Za-z0-9_.-]+\<close>. Scheme, host and segments are those of
  the input text, not of a parse result. The function is a function of the text alone
  (and of the tables of the library).
\<close>

theorem validate_github_url_rejects:
  assumes "url = [] \<or> length url > 500
     \<or> (clean_text url \<and>
         (map ascii_lower (text_scheme url) \<noteq> asc ''https''
          \<or> text_host url \<notin> {asc ''github.com'', asc ''www.github.com''}
          \<or> length (text_segments url) < 2
          \<or> \<not> owner_ok (text_segments url ! 0)
          \<or> \<not> repo_ok (strip_git_suffix (text_segments url ! 1))))"
  shows "fst (validate_github_url L url) = False"
proof (cases "url = [] \<or> length url > 500")
  case True
  then show ?thesis by (intro validate_github_url_rejects_parsed) blast
next
  case False
  with assms have c: "clean_text url"
    and bad: "map ascii_lower (text_scheme url) \<noteq> asc ''https''
          \<or> text_host url \<notin> {asc ''github.com'', asc ''www.github.com''}
          \<or> length (text_segments url) < 2
          \<or> \<not> owner_ok (text_segments url ! 0)
          \<or> \<not> repo_ok (strip_git_suffix (text_segments url ! 1))"
    by auto
  show ?thesis
  proof (cases "urlparse L url")
    case (Inl e)
    then show ?thesis by (intro validate_github_url_rejects_parsed) blast
  next
    case (Inr parsed)
    from urlparse_text [OF c Inr]
    have "scheme parsed \<noteq> asc ''https''
           \<or> netloc parsed \<notin> {asc ''github.com'', asc ''www.github.com''}
           \<or> length (path_parts_of (path parsed)) < 2
           \<or> \<not> owner_ok (path_parts_of (path parsed) ! 0)
           \<or> \<not> repo_ok (strip_git_suffix (path_parts_of (path parsed) ! 1))"
    proof
      assume "scheme parsed = []"
      then show ?thesis by (simp add: asc_def)
    next
      assume "scheme parsed = map ascii_lower (text_scheme url) \<and>
          netloc parsed = text_host url \<and> path parsed = text_path url"
      with bad show ?thesis by (simp add: text_segments_def)
    qed
    with Inr show ?thesis by (intro validate_github_url_rejects_parsed) blast
  qed
qed

lemmas text_eval =
  clean_text_def text_scheme_def text_rest_def text_host_def text_path_def text_segments_def
  not_delim_def path_parts_of_def strip_chars_def owner_ok_def is_owner_char_def
  ascii_lower_def asc_def

theorem validate_github_url_rejects_witness:
  "fst (validate_github_url lenient (asc ''https://github.com/ow ner/repo'')) = False"
proof -
  have "clean_text (asc ''https://github.com/ow ner/repo'')
      \<and> \<not> owner_ok (text_segments (asc ''https://github.com/ow ner/repo'') ! 0)"
    by (simp add: text_eval)
  then show ?thesis by (intro validate_github_url_rejects) blast
qed

text \<open>
  The characters excluded above are removed or cut off by \<open>urlparse\<close> before the
  checks, which then read another text than the one given: a tab inside the owner is
  accepted, and so is a \<open>;\<close> inside the repository name, whose name is then cut at the
  \<open>;\<close>.
\<close>

lemma validate_github_url_reads_cleaned_text:
  "validate_github_url lenient (asc ''https://github.com/ow'' @ [9] @ asc ''ner/repo'') = (True, [])
   \<and> validate_github_url lenient (asc ''https://github.com/owner/re;po'') = (True, [])
   \<and> extract_repo_info lenient (asc ''https://github.com/owner/re;po'') =
       Inr \<lparr> owner = asc ''owner'', repo = asc ''re'', full_name = asc ''owner/re'' \<rparr>"
  by (simp add: url_eval)

text \<open>
  C9. The claim: the extracted repo is the second path segment with a trailing \<open>.git\<close>
  stripped, and \<open>.git\<close> inside the segment is kept, as in \<open>my.github.tools\<close>. The
  code calls \<open>replace('.git', '')\<close>, which removes every occurrence: the URL of the
  repository \<open>my.github.tools\<close> is accepted and its repo is extracted as
  \<open>myhub.tools\<close>.
\<close>

theorem extract_repo_info_removes_interior_git:
  "validate_github_url lenient (asc ''https://github.com/owner/my.github.tools'') = (True, [])
   \<and> extract_repo_info lenient (asc ''https://github.com/owner/my.github.tools'') =
       Inr \<lparr> owner = asc ''owner'', repo = asc ''myhub.tools'',
             full_name = asc ''owner/myhub.tools'' \<rparr>"
  by (simp add: url_eval)




section \<open>Properties of prompt assembly\<close>

lemmas prompt_eval =
  prepare_prompt_def prompt_fields_def analyze_repository_def extract_readme_def
  readme_patterns_def no_readme_def readme_template_def py_slice_def asc_def Let_def

text \<open>
  C8. The claim: where an evidence field is absent, in particular for a repository with
  no README, the prompt holds the placeholder of the slot (\<open>README not found\<close>).
  \<open>_extract_readme\<close> returns the empty text when there is no README and
  \<open>analyze_repository\<close> always stores it under \<open>readme_content\<close>, so the default of
  \<open>analysis.get('readme_content', 'README not found')\<close> is never taken on the analysis
  of a repository: the slot is empty.
\<close>

theorem prompt_without_readme_has_no_placeholder:
  "extract_readme no_readme = []
   \<and> prepare_prompt readme_template (asc ''o/r'') (asc ''https://github.com/o/r'') NoKey
       (analyze_repository (\<lambda>s i. [s ! i]) example_repo no_readme [] (asc ''library'') [])
     = Inr (asc ''README: .'')"
  by (simp add: prompt_eval)

text \<open>
  What does hold for C8: the README placeholder is used when the key itself is missing;
  after an analysis the slot holds the first 8000 code points of what
  \<open>_extract_readme\<close> returned; an absent or empty file structure and absent or empty
  code samples give their placeholders; and formatting does not fail when the template
  names keyword arguments only.
\<close>

lemma readme_slot_when_key_missing:
  "readme_content a = None \<Longrightarrow>
   map_of (prompt_fields n url d a) (asc ''readme_content'') = Some (asc ''README not found'')"
  by (simp add: prompt_fields_def py_slice_def asc_def)

lemma readme_slot_after_analysis:
  "map_of (prompt_fields n url d (analyze_repository u r dir st rt ls)) (asc ''readme_content'')
   = Some (py_slice (extract_readme dir) 0 8000)"
  by (simp add: prompt_fields_def analyze_repository_def asc_def)

lemma structure_slot_when_absent:
  "file_structure a = None \<or> file_structure a = Some [] \<Longrightarrow>
   map_of (prompt_fields n url d a) (asc ''file_structure'') = Some (asc ''File structure not available'')"
  by (auto simp: prompt_fields_def file_structure_text_def asc_def)

lemma samples_slot_when_absent:
  "code_samples a = None \<or> code_samples a = Some [] \<Longrightarrow>
   map_of (prompt_fields n url d a) (asc ''code_samples'') = Some (asc ''No code samples available'')"
  by (auto simp: prompt_fields_def code_samples_text_def asc_def)

lemma format_template_total:
  "\<forall>k. Field k \<in> set t \<longrightarrow> map_of kw k \<noteq> None \<Longrightarrow> \<exists>out. format_template t kw = Inr out"
proof (induction t)
  case Nil
  then show ?case by simp
next
  case (Cons s t)
  then obtain out where "format_template t kw = Inr out" by auto
  with Cons.prems show ?case by (cases s) auto
qed

section \<open>Properties of cloning\<close>

lemma safe_name_chars: "list_all is_owner_char (safe_name s)"
proof -
  have "is_owner_char 95" by (simp add: is_owner_char_def)
  then show ?thesis by (induction s) (auto simp: safe_name_def)
qed

lemma owner_chars_plain:
  assumes "list_all is_owner_char n"
  shows "47 \<notin> set n" and "46 \<notin> set n"
  using assms by (auto simp: list_all_iff is_owner_char_def)

lemma single_component:
  assumes "list_all is_owner_char n" and "n \<noteq> []"
  shows "path_join base n = base @ [n]"
proof -
  have s: "47 \<notin> set n" and d: "46 \<notin> set n" using assms(1) by (rule owner_chars_plain)+
  from s have "split_on 47 n = [n]" by (rule split_on_absent)
  moreover from d have "n \<noteq> asc ''.''" by (auto simp: asc_def)
  moreover from s assms(2) have "\<not> prefix (asc ''/'') n"
    by (cases n) (auto simp: asc_def)
  ultimately show ?thesis using assms(2) by (simp add: path_join_def path_components_def)
qed

lemma after_failure_ops:
  "set (snd (after_failure env p ops)) \<subseteq> set ops \<union> {Rmtree p}"
  by (auto simp: after_failure_def)

lemma after_failure_result: "fst (after_failure env p ops) \<noteq> Inr (Some q)"
  by (auto simp: after_failure_def)

lemma clone_repository_guard:
  assumes "fst (clone_repository L env temp_dir url) = Inr (Some p)
         \<or> snd (clone_repository L env temp_dir url) \<noteq> []"
  shows "\<exists>info clone_path root.
           extract_repo_info L url = Inr info \<and>
           resolve env (path_join temp_dir (safe_name (full_name info))) = Some clone_path \<and>
           resolve env temp_dir = Some root \<and>
           prefix (abs_str root) (abs_str clone_path) \<and>
           set (snd (clone_repository L env temp_dir url)) \<subseteq> {Rmtree clone_path, GitClone clone_path} \<and>
           (fst (clone_repository L env temp_dir url) = Inr (Some p) \<longrightarrow> p = clone_path)"
proof -
  let ?c = "clone_repository L env temp_dir url"
  from assms have ne: "?c \<noteq> (Inr None, [])" by auto
  have v: "fst (validate_github_url L url)"
  proof (rule ccontr)
    assume "\<not> ?thesis"
    then have "?c = (Inr None, [])" by (simp add: clone_repository_def)
    with ne show False by simp
  qed
  obtain info where i: "extract_repo_info L url = Inr info"
  proof (cases "extract_repo_info L url")
    case (Inl e)
    then have "?c = (Inl e, [])" using v by (simp add: clone_repository_def)
    with assms show ?thesis by simp
  next
    case (Inr info)
    then show ?thesis using that by simp
  qed
  obtain cp where cp: "resolve env (path_join temp_dir (safe_name (full_name info))) = Some cp"
  proof (cases "resolve env (path_join temp_dir (safe_name (full_name info)))")
    case None
    then have "?c = (Inr None, [])" using v i by (simp add: clone_repository_def)
    with ne show ?thesis by simp
  next
    case (Some cp)
    then show ?thesis using that by simp
  qed
  obtain root where r: "resolve env temp_dir = Some root"
  proof (cases "resolve env temp_dir")
    case None
    then have "?c = (Inr None, [])" using v i cp by (simp add: clone_repository_def)
    with ne show ?thesis by simp
  next
    case (Some root)
    then show ?thesis using that by simp
  qed
  have g: "prefix (abs_str root) (abs_str cp)"
  proof (rule ccontr)
    assume "\<not> ?thesis"
    then have "?c = (Inr None, [])" using v i cp r by (simp add: clone_repository_def)
    with ne show False by simp
  qed
  note base = clone_repository_def v i cp r g
  have "set (snd ?c) \<subseteq> {Rmtree cp, GitClone cp} \<and> (fst ?c = Inr (Some p) \<longrightarrow> p = cp)"
    by (cases "path_exists env cp"; cases "rmtree_raises env cp"; cases "git_clone env cp";
        cases "exists_after_failure env cp")
      (auto simp: base Let_def after_failure_def)
  with i cp r g show ?thesis by blast
qed

lemmas clone_eval =
  clone_repository_def after_failure_def safe_name_def path_join_def path_components_def
  abs_str_def max_clone_size_def plain_env_def linked_env_def lenient_def

text \<open>
  C4. The claim: the directory name holds only \<open>[A-Za-z0-9_-]\<close>, the resolved clone
  path is always a descendant of the resolved scratch root, and clone fails before any
  mutation of the file system if the resolved path escapes the root. Resolution
  follows symbolic links, and the guard, which the source introduces as
  \<open>Ensure clone path is within TEMP_DIR\<close>, compares the texts of the two paths with
  \<open>startswith\<close>: when \<open>/data/temp/owner_repo\<close> resolves to
  \<open>/data/temp_old/owner_repo\<close>, a directory beside the root \<open>/data/temp\<close> and not
  within it, the guard passes, and clone removes that directory and clones into it.
\<close>

theorem clone_into_sibling_directory:
  "clone_repository lenient linked_env [asc ''data'', asc ''temp'']
     (asc ''https://github.com/owner/repo'')
   = (Inr (Some [asc ''data'', asc ''temp_old'', asc ''owner_repo'']),
      [Rmtree [asc ''data'', asc ''temp_old'', asc ''owner_repo''],
       GitClone [asc ''data'', asc ''temp_old'', asc ''owner_repo'']])
   \<and> \<not> prefix [asc ''data'', asc ''temp'']
         [asc ''data'', asc ''temp_old'', asc ''owner_repo'']"
  by (simp add: clone_eval url_eval)

text \<open>
  The parts of the claim that the code does meet: for every owner and repo the
  directory name holds only \<open>[A-Za-z0-9_-]\<close> and is one path component, so that the
  clone path, before resolution, is a direct child of the scratch root; and clone
  returns a path or mutates the file system only when both paths resolve and pass the
  guard, every mutation being made at the resolved clone path. The guard itself is the
  comparison of texts shown above to be too weak.
\<close>

lemma clone_path_contained:
  "list_all is_owner_char (safe_name (ow @ asc ''/'' @ rp))
   \<and> path_join temp_dir (safe_name (ow @ asc ''/'' @ rp))
       = temp_dir @ [safe_name (ow @ asc ''/'' @ rp)]
   \<and> (fst (clone_repository L env temp_dir url) = Inr (Some p)
        \<or> snd (clone_repository L env temp_dir url) \<noteq> []
      \<longrightarrow> (\<exists>info clone_path root.
           extract_repo_info L url = Inr info \<and>
           resolve env (temp_dir @ [safe_name (full_name info)]) = Some clone_path \<and>
           resolve env temp_dir = Some root \<and>
           prefix (abs_str root) (abs_str clone_path) \<and>
           set (snd (clone_repository L env temp_dir url)) \<subseteq> {Rmtree clone_path, GitClone clone_path} \<and>
           (fst (clone_repository L env temp_dir url) = Inr (Some p) \<longrightarrow> p = clone_path)))"
proof (intro conjI impI)
  show "list_all is_owner_char (safe_name (ow @ asc ''/'' @ rp))" by (rule safe_name_chars)
  show "path_join temp_dir (safe_name (ow @ asc ''/'' @ rp))
       = temp_dir @ [safe_name (ow @ asc ''/'' @ rp)]"
    by (rule single_component [OF safe_name_chars]) (simp add: safe_name_def asc_def)
next
  assume a: "fst (clone_repository L env temp_dir url) = Inr (Some p)
        \<or> snd (clone_repository L env temp_dir url) \<noteq> []"
  from clone_repository_guard [OF a] obtain info clone_path root where
    i: "extract_repo_info L url = Inr info"
    and rest: "resolve env (path_join temp_dir (safe_name (full_name info))) = Some clone_path"
      "resolve env temp_dir = Some root"
      "prefix (abs_str root) (abs_str clone_path)"
      "set (snd (clone_repository L env temp_dir url)) \<subseteq> {Rmtree clone_path, GitClone clone_path}"
      "fst (clone_repository L env temp_dir url) = Inr (Some p) \<longrightarrow> p = clone_path"
    by blast
  from i have "full_name info \<noteq> []"
    by (auto simp: extract_repo_info_def Let_def asc_def split: sum.splits if_splits)
  then have "path_join temp_dir (safe_name (full_name info)) = temp_dir @ [safe_name (full_name info)]"
    by (intro single_component [OF safe_name_chars]) (simp add: safe_name_def)
  with i rest show "\<exists>info clone_path root.
           extract_repo_info L url = Inr info \<and>
           resolve env (temp_dir @ [safe_name (full_name info)]) = Some clone_path \<and>
           resolve env temp_dir = Some root \<and>
           prefix (abs_str root) (abs_str clone_path) \<and>
           set (snd (clone_repository L env temp_dir url)) \<subseteq> {Rmtree clone_path, GitClone clone_path} \<and>
           (fst (clone_repository L env temp_dir url) = Inr (Some p) \<longrightarrow> p = clone_path)"
    by auto
qed

lemma clone_path_contained_at_plain:
  "clone_repository lenient plain_env [asc ''data'', asc ''temp'']
     (asc ''https://github.com/owner/repo'')
   = (Inr (Some [asc ''data'', asc ''temp'', asc ''owner_repo'']),
      [GitClone [asc ''data'', asc ''temp'', asc ''owner_repo'']])
   \<and> prefix (abs_str [asc ''data'', asc ''temp''])
        (abs_str [asc ''data'', asc ''temp'', asc ''owner_repo''])"
proof -
  let ?u = "asc ''https://github.com/owner/repo''"
  let ?t = "[asc ''data'', asc ''temp'']"
  have c: "clone_repository lenient plain_env ?t ?u
     = (Inr (Some [asc ''data'', asc ''temp'', asc ''owner_repo'']),
        [GitClone [asc ''data'', asc ''temp'', asc ''owner_repo'']])"
    by (simp add: clone_eval url_eval)
  have e: "extract_repo_info lenient ?u =
      Inr \<lparr> owner = asc ''owner'', repo = asc ''repo'', full_name = asc ''owner/repo'' \<rparr>"
    by (simp add: url_eval)
  have s: "safe_name (asc ''owner/repo'') = asc ''owner_repo''"
    by (simp add: safe_name_def is_owner_char_def asc_def)
  from clone_path_contained
    [of "asc ''owner''" "asc ''repo''" ?t lenient plain_env ?u
        "[asc ''data'', asc ''temp'', asc ''owner_repo'']"]
  have "\<exists>info clone_path root.
           extract_repo_info lenient ?u = Inr info \<and>
           resolve plain_env (?t @ [safe_name (full_name info)]) = Some clone_path \<and>
           resolve plain_env ?t = Some root \<and>
           prefix (abs_str root) (abs_str clone_path)"
    unfolding c by auto
  then have "prefix (abs_str ?t) (abs_str [asc ''data'', asc ''temp'', asc ''owner_repo''])"
    unfolding e by (auto simp: plain_env_def s)
  with c show ?thesis by simp
qed

end
